theory Spec2Isabelle
  imports Main "HOL-Library.Multiset"
begin

section \<open>Documents of the store\<close>

text \<open>
  An ObjectId is a natural number.  Of a user document the model keeps the fields
  the connection and notification controllers read: \<^verbatim>\<open>_id\<close> (here \<open>uid\<close>),
  the version key \<^verbatim>\<open>__v\<close> (here \<open>version\<close>) that \<^verbatim>\<open>save\<close> checks,
  \<^verbatim>\<open>name\<close>, \<^verbatim>\<open>profileImage\<close>, \<^verbatim>\<open>headline\<close> and the \<^verbatim>\<open>connections\<close> array, whose
  sub-documents carry \<^verbatim>\<open>user\<close> (here \<open>conn_user\<close>) and \<^verbatim>\<open>status\<close> (here
  \<open>conn_status\<close>), an enum of \<^verbatim>\<open>'pending'\<close> and \<^verbatim>\<open>'accepted'\<close>
  (models/User.js).
\<close>

type_synonym oid = nat

text \<open>
  A string in which a client sends an id (\<^verbatim>\<open>req.params.id\<close>).  The controllers do two
  things with it: they hand it to \<^verbatim>\<open>findById\<close>, which casts it to an ObjectId or
  throws a \<^verbatim>\<open>CastError\<close>, and they compare it, as a string, with the
  \<^verbatim>\<open>toString()\<close> of an ObjectId.  \<open>Spelling i 0\<close> is \<open>i.toString()\<close>, the lower-case
  hexadecimal digits of \<open>i\<close>; \<open>Spelling i k\<close> with \<open>k > 0\<close> is another string that
  casts to \<open>i\<close>, such as the same digits in upper case; \<open>Uncastable s\<close> is a string
  that does not cast.  Two strings are equal when they are the same spelling.
  \<^verbatim>\<open>req.user.id\<close> is the \<^verbatim>\<open>toString()\<close> of the authenticated user's \<^verbatim>\<open>_id\<close>;
  the controllers take that id as \<open>me\<close>.
\<close>

datatype id_string = Spelling oid nat | Uncastable string

definition toString :: "oid \<Rightarrow> id_string" where
  "toString i = Spelling i 0"

fun castObjectId :: "id_string \<Rightarrow> oid option" where
  "castObjectId (Spelling i k) = Some i"
| "castObjectId (Uncastable s) = None"

datatype status = Pending | Accepted

record connection =
  conn_user :: oid
  conn_status :: status

record user =
  uid :: oid
  version :: nat
  name :: string
  profileImage :: string
  headline :: string
  connections :: "connection list"

text \<open>
  A post: \<^verbatim>\<open>_id\<close>, its owner \<^verbatim>\<open>user\<close> and the users of its \<^verbatim>\<open>likes\<close> array,
  newest first.
\<close>

record post =
  pid :: oid
  post_user :: oid
  likes :: "oid list"

text \<open>
  A notification document (models/Notification.js). \<open>ntype\<close> is the field \<^verbatim>\<open>type\<close>,
  \<open>nid\<close> is \<^verbatim>\<open>_id\<close>; \<^verbatim>\<open>type\<close> and \<^verbatim>\<open>onModel\<close> are strings that the schema
  validates against its enums; \<^verbatim>\<open>createdAt\<close> comes from \<^verbatim>\<open>timestamps: true\<close>.
\<close>

record notification =
  nid :: oid
  recipient :: oid
  sender :: oid
  ntype :: string
  content :: string
  referenceId :: "oid option"
  onModel :: "string option"
  isRead :: bool
  readAt :: "nat option"
  createdAt :: nat

text \<open>
  The object handed to \<^verbatim>\<open>Notification.create\<close>: every field may be missing.
\<close>

record notification_data =
  d_recipient :: "oid option"
  d_sender :: "oid option"
  d_type :: "string option"
  d_content :: "string option"
  d_referenceId :: "oid option"
  d_onModel :: "string option"
  d_isRead :: "bool option"

section \<open>The socket server\<close>

text \<open>
  server.js keeps, for every open socket, its id, the \<^verbatim>\<open>userId\<close> that the
  \<^verbatim>\<open>authenticate\<close> handler stores on it, and the rooms it is in: the room of its own
  id, which a socket is in from the start, and the rooms it joined with
  \<^verbatim>\<open>socket.join\<close>.  \<^verbatim>\<open>connectedUsers\<close> is a \<^verbatim>\<open>Map\<close> from user id to one socket id.
  \<^verbatim>\<open>io.to(room).emit(event, payload)\<close> reaches the sockets that are in the room at
  that moment; \<open>emitted\<close> logs the calls and \<open>delivered\<close> what each socket received.
\<close>

datatype room = Own nat | Named oid

datatype payload =
    NotificationPayload string string oid
  | UnreadCount nat
  | UserOffline oid
  | ErrorMessage string

record socket =
  sock_id :: nat
  userId :: "oid option"
  rooms :: "room list"

record io_server =
  sockets :: "socket list"
  connectedUsers :: "oid \<rightharpoonup> nat"
  emitted :: "(room \<times> string \<times> payload) list"
  delivered :: "(nat \<times> string \<times> payload) list"

definition emit_to :: "room \<Rightarrow> string \<Rightarrow> payload \<Rightarrow> io_server \<Rightarrow> io_server" where
  "emit_to r ev p s =
     s\<lparr>emitted := emitted s @ [(r, ev, p)],
       delivered := delivered s @ map (\<lambda>k. (sock_id k, ev, p)) (filter (\<lambda>k. r \<in> set (rooms k)) (sockets s))\<rparr>"

definition on_connection :: "nat \<Rightarrow> io_server \<Rightarrow> io_server" where
  "on_connection i s = s\<lparr>sockets := sockets s @ [\<lparr>sock_id = i, userId = None, rooms = [Own i]\<rparr>]\<rparr>"

text \<open>
  What is thrown inside a \<^verbatim>\<open>try\<close>.
\<close>

datatype exn =
  TypeError | ReferenceError | CastError | ValidationError | VersionError | MongoError

text \<open>
  \<^verbatim>\<open>jwt.verify(token, process.env.JWT_SECRET)\<close> in server.js: the file imports no
  \<^verbatim>\<open>jsonwebtoken\<close> and declares no \<^verbatim>\<open>jwt\<close>, so evaluating the name throws a
  \<^verbatim>\<open>ReferenceError\<close>, whatever the token.
\<close>

definition jwt_verify :: "string \<Rightarrow> exn + oid" where
  "jwt_verify token = Inl ReferenceError"

text \<open>
  \<^verbatim>\<open>socket.on('authenticate', token)\<close>: when \<^verbatim>\<open>jwt.verify\<close> returns, the handler sets
  \<^verbatim>\<open>socket.userId\<close> and \<^verbatim>\<open>connectedUsers.set(decoded.id, socket.id)\<close>, and joins no
  room; when it throws, the \<^verbatim>\<open>catch\<close> sends \<^verbatim>\<open>error\<close> to the socket.
\<close>

definition on_authenticate :: "nat \<Rightarrow> string \<Rightarrow> io_server \<Rightarrow> io_server" where
  "on_authenticate i token s =
     (case jwt_verify token of
        Inr u \<Rightarrow>
          s\<lparr>sockets := map (\<lambda>k. if sock_id k = i then k\<lparr>userId := Some u\<rparr> else k) (sockets s),
            connectedUsers := (connectedUsers s)(u \<mapsto> i)\<rparr>
      | Inl x \<Rightarrow> emit_to (Own i) ''error'' (ErrorMessage ''Authentication failed'') s)"

definition on_joinConversation :: "nat \<Rightarrow> oid \<Rightarrow> io_server \<Rightarrow> io_server" where
  "on_joinConversation i conversationId s =
     s\<lparr>sockets := map (\<lambda>k. if sock_id k = i then k\<lparr>rooms := rooms k @ [Named conversationId]\<rparr> else k)
                      (sockets s)\<rparr>"

section \<open>The state and the outcome of a request\<close>

record world =
  users :: "user list"
  posts :: "post list"
  notifications :: "notification list"
  io :: io_server

text \<open>
  A controller answers with \<^verbatim>\<open>res.status(c).json({ message })\<close> (an \<open>Error\<close>) or
  with a success body.  Whatever is thrown inside its \<^verbatim>\<open>try\<close>, the single
  \<^verbatim>\<open>catch\<close> block of the controller logs it and answers \<open>server_error\<close>.
\<close>

datatype error = Error (http_status: nat) (message: string)

definition server_error :: error where
  "server_error = Error 500 ''Server error''"

text \<open>
  What a request takes from outside the store: the clock, the ObjectId the driver
  generates for a new notification, and whether the store accepts each write of the
  request: the first and the second \<^verbatim>\<open>save()\<close> of a document, and the insert of the
  notification.  A write that the store does not accept rejects, which throws at the
  \<^verbatim>\<open>await\<close>.
\<close>

record env =
  now :: nat
  new_id :: oid
  save1_up :: bool
  save2_up :: bool
  ledger_up :: bool

section \<open>The User collection\<close>

definition findById :: "user list \<Rightarrow> oid \<Rightarrow> user option" where
  "findById us i = find (\<lambda>u. uid u = i) us"

text \<open>
  \<^verbatim>\<open>User.findById(req.params.id)\<close> casts the string first.
\<close>

definition findById_param :: "user list \<Rightarrow> id_string \<Rightarrow> exn + user option" where
  "findById_param us p =
     (case castObjectId p of None \<Rightarrow> Inl CastError | Some i \<Rightarrow> Inr (findById us i))"

text \<open>
  \<^verbatim>\<open>doc.save()\<close> after the controller has changed \<^verbatim>\<open>doc.connections\<close> of the copy it
  loaded into \<open>cs\<close>.  When the array is as it was loaded, no path is modified and
  nothing is written.  Otherwise the update carries the loaded \<^verbatim>\<open>__v\<close> in its filter
  and throws a \<^verbatim>\<open>VersionError\<close> when no stored document has it.  An array that was
  replaced or shifted (\<open>VERSION_ALL\<close>: \<^verbatim>\<open>unshift\<close>, assignment) increments
  \<^verbatim>\<open>__v\<close>; a field of an element set in place (\<open>VERSION_WHERE\<close>) does not.  The
  write puts the copy's array into the stored document; within one request that is what
  the update of the modified paths leaves.
\<close>

datatype versioning = VERSION_ALL | VERSION_WHERE

definition written :: "versioning \<Rightarrow> connection list \<Rightarrow> user \<Rightarrow> user" where
  "written k cs u =
     u\<lparr>connections := cs,
       version := (case k of VERSION_ALL \<Rightarrow> Suc (version u) | VERSION_WHERE \<Rightarrow> version u)\<rparr>"

definition save ::
  "bool \<Rightarrow> versioning \<Rightarrow> user \<Rightarrow> connection list \<Rightarrow> user list \<Rightarrow> exn + user list" where
  "save up k loaded cs us =
     (if cs = connections loaded then Inr us
      else if \<not> up then Inl MongoError
      else (case findById us (uid loaded) of
              None \<Rightarrow> Inl VersionError
            | Some stored \<Rightarrow>
                if version stored \<noteq> version loaded then Inl VersionError
                else Inr (map (\<lambda>u. if uid u = uid loaded then written k cs u else u) us)))"

text \<open>
  \<^verbatim>\<open>populate('connections.user', 'name profileImage headline')\<close> replaces the id of
  each entry by the selected fields of the user it refers to, and by \<^verbatim>\<open>null\<close> when no
  user matches: no such user or, with a \<^verbatim>\<open>match\<close>, a user that fails it.
\<close>

record user_view =
  v_id :: oid
  v_name :: string
  v_profileImage :: string
  v_headline :: string

record populated_connection =
  p_user :: "user_view option"
  p_status :: status

definition view :: "user \<Rightarrow> user_view" where
  "view u = \<lparr>v_id = uid u, v_name = name u, v_profileImage = profileImage u, v_headline = headline u\<rparr>"

definition populate :: "user list \<Rightarrow> (user \<Rightarrow> bool) \<Rightarrow> connection \<Rightarrow> populated_connection" where
  "populate us match c =
     \<lparr>p_user = (case findById us (conn_user c) of
                  None \<Rightarrow> None
                | Some v \<Rightarrow> if match v then Some (view v) else None),
      p_status = conn_status c\<rparr>"

section \<open>The Notification collection\<close>

definition type_enum :: "string list" where
  "type_enum = [''connection-request'', ''connection-accepted'', ''post-like'', ''post-comment'',
     ''post-share'', ''job-application'', ''job-application-update'', ''message'', ''mention'']"

definition onModel_enum :: "string list" where
  "onModel_enum = [''Post'', ''Job'', ''User'', ''Message'']"

text \<open>
  The schema's validators: \<^verbatim>\<open>recipient\<close>, \<^verbatim>\<open>sender\<close>, \<^verbatim>\<open>type\<close> and \<^verbatim>\<open>content\<close> are
  required (a required string must not be empty), \<^verbatim>\<open>type\<close> must be in its enum, and
  \<^verbatim>\<open>onModel\<close>, when given, in its own.
\<close>

definition validate :: "notification_data \<Rightarrow> bool" where
  "validate d =
     (d_recipient d \<noteq> None \<and> d_sender d \<noteq> None
      \<and> (case d_type d of None \<Rightarrow> False | Some t \<Rightarrow> t \<noteq> [] \<and> t \<in> set type_enum)
      \<and> (case d_content d of None \<Rightarrow> False | Some c \<Rightarrow> c \<noteq> [])
      \<and> (case d_onModel d of None \<Rightarrow> True | Some m \<Rightarrow> m \<in> set onModel_enum))"

text \<open>
  The new document: \<^verbatim>\<open>isRead\<close> defaults to \<^verbatim>\<open>false\<close>.  \<open>isRead_modified\<close> is
  \<^verbatim>\<open>this.isModified('isRead')\<close>: for a new document, whether the caller gave the field.
\<close>

definition new_doc :: "env \<Rightarrow> notification_data \<Rightarrow> notification" where
  "new_doc e d =
     \<lparr>nid = new_id e, recipient = the (d_recipient d), sender = the (d_sender d),
      ntype = the (d_type d), content = the (d_content d),
      referenceId = d_referenceId d, onModel = d_onModel d,
      isRead = (case d_isRead d of None \<Rightarrow> False | Some b \<Rightarrow> b),
      readAt = None, createdAt = now e\<rparr>"

text \<open>
  \<^verbatim>\<open>NotificationSchema.pre('save')\<close>: sets \<^verbatim>\<open>readAt\<close> when \<^verbatim>\<open>isRead\<close> was modified
  and is true.
\<close>

definition pre_save :: "nat \<Rightarrow> bool \<Rightarrow> notification \<Rightarrow> notification" where
  "pre_save t isRead_modified n =
     (if isRead_modified \<and> isRead n then n\<lparr>readAt := Some t\<rparr> else n)"

text \<open>
  \<^verbatim>\<open>Notification.create(data)\<close>: validation, the save hook, the insert.  \<open>the\<close> in
  \<open>new_doc\<close> is only reached after \<open>validate\<close> has found the required fields.
\<close>

definition Notification_create ::
  "env \<Rightarrow> notification_data \<Rightarrow> notification list \<Rightarrow> exn + notification list" where
  "Notification_create e d ns =
     (if \<not> validate d then Inl ValidationError
      else if \<not> ledger_up e then Inl MongoError
      else Inr (ns @ [pre_save (now e) (d_isRead d \<noteq> None) (new_doc e d)]))"

definition countUnread :: "notification list \<Rightarrow> oid \<Rightarrow> nat" where
  "countUnread ns u = length (filter (\<lambda>n. recipient n = u \<and> \<not> isRead n) ns)"

section \<open>Connections (controllers/messageController.js)\<close>


text \<open>
  \<^verbatim>\<open>getConnectionRequests\<close> populates with
  \<^verbatim>\<open>match: { 'connections.status': 'pending' }\<close>, a condition on the referenced user:
  it has some pending entry.  A missing current user makes \<^verbatim>\<open>user.connections\<close>
  throw.
\<close>

definition has_pending :: "user \<Rightarrow> bool" where
  "has_pending v = (find (\<lambda>c. conn_status c = Pending) (connections v) \<noteq> None)"

definition getConnectionRequests :: "world \<Rightarrow> oid \<Rightarrow> error + populated_connection list" where
  "getConnectionRequests w me =
     (case findById (users w) me of
        None \<Rightarrow> Inl server_error
      | Some u \<Rightarrow>
          Inr (filter (\<lambda>c. p_status c = Pending)
                 (map (populate (users w) has_pending) (connections u))))"

definition notify_data :: "oid \<Rightarrow> oid \<Rightarrow> string \<Rightarrow> string \<Rightarrow> oid \<Rightarrow> string \<Rightarrow> notification_data" where
  "notify_data r s t c ref m =
     \<lparr>d_recipient = Some r, d_sender = Some s, d_type = Some t, d_content = Some c,
      d_referenceId = Some ref, d_onModel = Some m, d_isRead = None\<rparr>"

text \<open>
  \<^verbatim>\<open>sendConnectionRequest\<close>.  The self check and the search for an existing entry
  compare strings with the raw \<^verbatim>\<open>req.params.id\<close>; \<^verbatim>\<open>findById\<close> casts it.  Both
  documents are loaded before either is saved, and each \<^verbatim>\<open>save()\<close> is awaited in
  turn: what an earlier one wrote stays when a later step throws.
\<close>

definition sendConnectionRequest ::
  "env \<Rightarrow> world \<Rightarrow> oid \<Rightarrow> id_string \<Rightarrow> (error + unit) \<times> world" where
  "sendConnectionRequest e w me p =
     (if toString me = p then (Inl (Error 400 ''Cannot connect with yourself''), w)
      else (case findById_param (users w) p of
        Inl x \<Rightarrow> (Inl server_error, w)
      | Inr None \<Rightarrow> (Inl (Error 404 ''User not found''), w)
      | Inr (Some targetUser) \<Rightarrow>
         (case findById (users w) me of
            None \<Rightarrow> (Inl server_error, w)
          | Some u \<Rightarrow>
             if find (\<lambda>c. toString (conn_user c) = p) (connections u) \<noteq> None
             then (Inl (Error 400 ''Connection already exists''), w)
             else
               (case save (save1_up e) VERSION_ALL u
                       (\<lparr>conn_user = uid targetUser, conn_status = Pending\<rparr> # connections u)
                       (users w) of
                  Inl x \<Rightarrow> (Inl server_error, w)
                | Inr us1 \<Rightarrow>
                   (case save (save2_up e) VERSION_ALL targetUser
                           (\<lparr>conn_user = uid u, conn_status = Pending\<rparr> # connections targetUser)
                           us1 of
                      Inl x \<Rightarrow> (Inl server_error, w\<lparr>users := us1\<rparr>)
                    | Inr us2 \<Rightarrow>
                       let w1 = w\<lparr>users := us2\<rparr>;
                           text = name u @ '' sent you a connection request''
                       in (case Notification_create e
                                 (notify_data (uid targetUser) (uid u) ''connection-request'' text
                                    (uid u) ''User'')
                                 (notifications w1) of
                            Inl x \<Rightarrow> (Inl server_error, w1)
                          | Inr ns \<Rightarrow>
                              (Inr (),
                               w1\<lparr>notifications := ns,
                                  io := emit_to (Named (uid targetUser)) ''receiveNotification''
                                          (NotificationPayload ''connection-request'' text (uid u))
                                          (io w1)\<rparr>)))))))"

text \<open>
  \<^verbatim>\<open>userConnection.status = 'accepted'\<close> assigns to the entry that
  \<^verbatim>\<open>connections.find\<close> returned, the first one that passes the test.
\<close>

fun accept_first :: "(connection \<Rightarrow> bool) \<Rightarrow> connection list \<Rightarrow> connection list" where
  "accept_first f [] = []"
| "accept_first f (c # cs) =
     (if f c then c\<lparr>conn_status := Accepted\<rparr> # cs else c # accept_first f cs)"

definition acceptConnection ::
  "env \<Rightarrow> world \<Rightarrow> oid \<Rightarrow> id_string \<Rightarrow> (error + unit) \<times> world" where
  "acceptConnection e w me p =
     (case findById_param (users w) p of
        Inl x \<Rightarrow> (Inl server_error, w)
      | Inr None \<Rightarrow> (Inl (Error 404 ''User not found''), w)
      | Inr (Some targetUser) \<Rightarrow>
         (case findById (users w) me of
            None \<Rightarrow> (Inl server_error, w)
          | Some u \<Rightarrow>
             if find (\<lambda>c. toString (conn_user c) = p) (connections u) = None
                \<or> find (\<lambda>c. toString (conn_user c) = toString me) (connections targetUser) = None
             then (Inl (Error 400 ''No connection request found''), w)
             else
               (case save (save1_up e) VERSION_WHERE u
                       (accept_first (\<lambda>c. toString (conn_user c) = p) (connections u))
                       (users w) of
                  Inl x \<Rightarrow> (Inl server_error, w)
                | Inr us1 \<Rightarrow>
                   (case save (save2_up e) VERSION_WHERE targetUser
                           (accept_first (\<lambda>c. toString (conn_user c) = toString me)
                              (connections targetUser))
                           us1 of
                      Inl x \<Rightarrow> (Inl server_error, w\<lparr>users := us1\<rparr>)
                    | Inr us2 \<Rightarrow>
                       let w1 = w\<lparr>users := us2\<rparr>;
                           text = name u @ '' accepted your connection request''
                       in (case Notification_create e
                                 (notify_data (uid targetUser) (uid u) ''connection-accepted'' text
                                    (uid u) ''User'')
                                 (notifications w1) of
                            Inl x \<Rightarrow> (Inl server_error, w1)
                          | Inr ns \<Rightarrow>
                              (Inr (),
                               w1\<lparr>notifications := ns,
                                  io := emit_to (Named (uid targetUser)) ''receiveNotification''
                                          (NotificationPayload ''connection-accepted'' text (uid u))
                                          (io w1)\<rparr>))))))"

definition removeConnection ::
  "env \<Rightarrow> world \<Rightarrow> oid \<Rightarrow> id_string \<Rightarrow> (error + unit) \<times> world" where
  "removeConnection e w me p =
     (case findById_param (users w) p of
        Inl x \<Rightarrow> (Inl server_error, w)
      | Inr None \<Rightarrow> (Inl (Error 404 ''User not found''), w)
      | Inr (Some targetUser) \<Rightarrow>
         (case findById (users w) me of
            None \<Rightarrow> (Inl server_error, w)
          | Some u \<Rightarrow>
              (case save (save1_up e) VERSION_ALL u
                      (filter (\<lambda>c. toString (conn_user c) \<noteq> p) (connections u))
                      (users w) of
                 Inl x \<Rightarrow> (Inl server_error, w)
               | Inr us1 \<Rightarrow>
                  (case save (save2_up e) VERSION_ALL targetUser
                          (filter (\<lambda>c. toString (conn_user c) \<noteq> toString me)
                             (connections targetUser))
                          us1 of
                     Inl x \<Rightarrow> (Inl server_error, w\<lparr>users := us1\<rparr>)
                   | Inr us2 \<Rightarrow> (Inr (), w\<lparr>users := us2\<rparr>)))))"



text \<open>
  A listing of pending requests shows one from \<open>a\<close>: it succeeds and has a pending
  entry populated with the user \<open>a\<close>.
\<close>

definition has_pending_from :: "oid \<Rightarrow> error + populated_connection list \<Rightarrow> bool" where
  "has_pending_from a r =
     (case r of Inl x \<Rightarrow> False
      | Inr l \<Rightarrow> list_ex (\<lambda>e. p_status e = Pending \<and> map_option v_id (p_user e) = Some a) l)"

text \<open>
  The connection invariant of the data model: the User collection has one document per
  \<^verbatim>\<open>_id\<close>; no user has two entries for one peer; no entry is for the user itself;
  and the peer of every entry exists and has an entry for this user with the same
  status.
\<close>

definition mirrored :: "user list \<Rightarrow> user \<Rightarrow> connection \<Rightarrow> bool" where
  "mirrored us u c =
     (\<exists>v \<in> set us. uid v = conn_user c
        \<and> (\<exists>d \<in> set (connections v). conn_user d = uid u \<and> conn_status d = conn_status c))"

definition conn_inv :: "user list \<Rightarrow> bool" where
  "conn_inv us =
     (distinct (map uid us)
      \<and> (\<forall>u \<in> set us.
            distinct (map conn_user (connections u))
            \<and> (\<forall>c \<in> set (connections u). conn_user c \<noteq> uid u \<and> mirrored us u c)))"

text \<open>
  The same invariant read through the lookup \<open>findById\<close>: what it asks of the document
  stored under \<open>i\<close>.
\<close>

definition entries_ok :: "(oid \<rightharpoonup> user) \<Rightarrow> oid \<Rightarrow> user \<Rightarrow> bool" where
  "entries_ok L i u =
     (distinct (map conn_user (connections u))
      \<and> (\<forall>c \<in> set (connections u). conn_user c \<noteq> i
            \<and> (\<exists>v. L (conn_user c) = Some v
                  \<and> (\<exists>d \<in> set (connections v). conn_user d = i \<and> conn_status d = conn_status c))))"

definition lookup_inv :: "(oid \<rightharpoonup> user) \<Rightarrow> bool" where
  "lookup_inv L = (\<forall>i u. L i = Some u \<longrightarrow> entries_ok L i u)"

section \<open>Likes (controllers/postController.js)\<close>

definition findPost :: "post list \<Rightarrow> oid \<Rightarrow> post option" where
  "findPost ps i = find (\<lambda>p. pid p = i) ps"

definition savePost :: "post \<Rightarrow> post list \<Rightarrow> post list" where
  "savePost d ps = map (\<lambda>p. if pid p = pid d then d else p) ps"

text \<open>
  \<^verbatim>\<open>likePost\<close>: \<^verbatim>\<open>Post.findById\<close> casts \<^verbatim>\<open>req.params.id\<close>; the like is saved
  first (the request's first save); the notification and the push follow inside the
  same \<^verbatim>\<open>try\<close>.  \<^verbatim>\<open>user.name\<close> throws when the liking user has no document.
  \<^verbatim>\<open>req.io\<close> is the socket server of server.js.
\<close>

definition likePost :: "env \<Rightarrow> world \<Rightarrow> oid \<Rightarrow> id_string \<Rightarrow> (error + oid list) \<times> world" where
  "likePost e w me p =
     (case castObjectId p of
        None \<Rightarrow> (Inl server_error, w)
      | Some postId \<Rightarrow>
       (case findPost (posts w) postId of
          None \<Rightarrow> (Inl (Error 404 ''Post not found''), w)
        | Some po \<Rightarrow>
            if me \<in> set (likes po) then (Inl (Error 400 ''Post already liked''), w)
            else if \<not> save1_up e then (Inl server_error, w)
            else
              let p' = po\<lparr>likes := me # likes po\<rparr>;
                  w1 = w\<lparr>posts := savePost p' (posts w)\<rparr>
              in if post_user p' \<noteq> me
                 then (case findById (users w1) me of
                         None \<Rightarrow> (Inl server_error, w1)
                       | Some u \<Rightarrow>
                           let text = name u @ '' liked your post''
                           in (case Notification_create e
                                      (notify_data (post_user p') me ''post-like'' text (pid p') ''Post'')
                                      (notifications w1) of
                                 Inl x \<Rightarrow> (Inl server_error, w1)
                               | Inr ns \<Rightarrow>
                                   (Inr (likes p'),
                                    w1\<lparr>notifications := ns,
                                       io := emit_to (Named (post_user p')) ''receiveNotification''
                                               (NotificationPayload ''post-like'' text me) (io w1)\<rparr>)))
                 else (Inr (likes p'), w1)))"

text \<open>
  The notification that \<^verbatim>\<open>createGroupConversation\<close> hands to
  \<^verbatim>\<open>Notification.create\<close> for a participant (controllers/messageController.js).
\<close>

definition createGroup_notification :: "user \<Rightarrow> string \<Rightarrow> oid \<Rightarrow> oid \<Rightarrow> notification_data" where
  "createGroup_notification adminUser gname participantId conversationId =
     notify_data participantId (uid adminUser) ''group-invite''
       (name adminUser @ '' added you to the group '' @ [CHR 0x22] @ gname @ [CHR 0x22])
       conversationId ''Conversation''"

section \<open>Notifications (controllers/notificationController.js)\<close>

text \<open>
  \<^verbatim>\<open>findOneAndUpdate(filter, { isRead: true }, { new: true })\<close> updates the first
  document that passes the filter and returns it as updated, or \<^verbatim>\<open>null\<close>;
  \<^verbatim>\<open>updateMany\<close> updates every document that passes.  Both write to the store
  directly: \<open>pre_save\<close> is not run.
\<close>

fun update_first :: "(notification \<Rightarrow> bool) \<Rightarrow> notification list \<Rightarrow> notification list" where
  "update_first f [] = []"
| "update_first f (n # ns) =
     (if f n then n\<lparr>isRead := True\<rparr> # ns else n # update_first f ns)"

definition findOneAndUpdate ::
  "(notification \<Rightarrow> bool) \<Rightarrow> notification list \<Rightarrow> notification option \<times> notification list" where
  "findOneAndUpdate f ns =
     (case find f ns of
        None \<Rightarrow> (None, ns)
      | Some n \<Rightarrow> (Some (n\<lparr>isRead := True\<rparr>), update_first f ns))"

definition updateMany :: "(notification \<Rightarrow> bool) \<Rightarrow> notification list \<Rightarrow> notification list" where
  "updateMany f ns = map (\<lambda>n. if f n then n\<lparr>isRead := True\<rparr> else n) ns"

definition markAsRead :: "world \<Rightarrow> oid \<Rightarrow> oid \<Rightarrow> (error + notification) \<times> world" where
  "markAsRead w i me =
     (case findOneAndUpdate (\<lambda>n. nid n = i \<and> recipient n = me) (notifications w) of
        (None, ns) \<Rightarrow> (Inl (Error 404 ''Notification not found''), w)
      | (Some n, ns) \<Rightarrow>
          (Inr n,
           w\<lparr>notifications := ns,
             io := emit_to (Named me) ''notificationRead'' (UnreadCount (countUnread ns me)) (io w)\<rparr>))"

definition markAllAsRead :: "world \<Rightarrow> oid \<Rightarrow> (error + unit) \<times> world" where
  "markAllAsRead w me =
     (Inr (),
      w\<lparr>notifications := updateMany (\<lambda>n. recipient n = me \<and> \<not> isRead n) (notifications w),
        io := emit_to (Named me) ''notificationRead'' (UnreadCount 0) (io w)\<rparr>)"

text \<open>
  \<^verbatim>\<open>getNotifications\<close>.  \<^verbatim>\<open>parseInt(q, 10) || d\<close>: the query value is \<open>None\<close> when
  it is missing or not a number, and \<open>0\<close> falls to the default as well.
\<close>

definition parse_or :: "int \<Rightarrow> int option \<Rightarrow> int" where
  "parse_or d q = (case q of None \<Rightarrow> d | Some n \<Rightarrow> if n = 0 then d else n)"

text \<open>
  \<^verbatim>\<open>find({ recipient }).sort({ createdAt: -1 })\<close> has one sort key.  The store
  answers with the matching documents in an order that descends in \<^verbatim>\<open>createdAt\<close>;
  among documents of equal \<^verbatim>\<open>createdAt\<close> the order is the store's choice.
  \<open>sort_answers\<close> holds of every list the store may answer with.
\<close>

definition sort_answers :: "notification list \<Rightarrow> notification list \<Rightarrow> bool" where
  "sort_answers candidates res =
     (mset res = mset candidates \<and> sorted_wrt (\<lambda>a b. createdAt b \<le> createdAt a) res)"

record notification_page =
  res_count :: nat
  unreadCount :: nat
  data :: "notification list"

text \<open>
  The store rejects a negative \<^verbatim>\<open>skip\<close>, which the \<^verbatim>\<open>catch\<close> turns into a 500; the
  driver sends a negative \<^verbatim>\<open>limit\<close> as its absolute value.  The population of
  \<^verbatim>\<open>sender\<close> changes neither the order nor the number of the entries and is left out.
\<close>

inductive getNotifications ::
  "world \<Rightarrow> oid \<Rightarrow> int option \<Rightarrow> int option \<Rightarrow> error + notification_page \<Rightarrow> bool" where
  page:
    "sort_answers (filter (\<lambda>n. recipient n = me) (notifications w)) res \<Longrightarrow>
     skip = (parse_or 1 p - 1) * parse_or 10 l \<Longrightarrow> 0 \<le> skip \<Longrightarrow>
     ns = take (nat \<bar>parse_or 10 l\<bar>) (drop (nat skip) res) \<Longrightarrow>
     getNotifications w me p l
       (Inr \<lparr>res_count = length ns, unreadCount = countUnread (notifications w) me, data = ns\<rparr>)"
| rejected:
    "(parse_or 1 p - 1) * parse_or 10 l < 0 \<Longrightarrow> getNotifications w me p l (Inl server_error)"

section \<open>Example states\<close>

definition alice :: user where
  "alice = \<lparr>uid = 11, version = 0, name = ''Alice'', profileImage = ''default.jpg'', headline = [],
            connections = []\<rparr>"

definition bob :: user where
  "bob = \<lparr>uid = 12, version = 0, name = ''Bob'', profileImage = ''default.jpg'', headline = [],
          connections = []\<rparr>"

definition carol :: user where
  "carol = \<lparr>uid = 13, version = 0, name = ''Carol'', profileImage = ''default.jpg'', headline = [],
            connections = []\<rparr>"

definition dave :: user where
  "dave = \<lparr>uid = 14, version = 0, name = ''Dave'', profileImage = ''default.jpg'', headline = [],
           connections = []\<rparr>"

definition io0 :: io_server where
  "io0 = \<lparr>sockets = [], connectedUsers = Map.empty, emitted = [], delivered = []\<rparr>"

text \<open>The store accepts every write; it rejects the insert; it rejects the second save.\<close>

definition env0 :: env where
  "env0 = \<lparr>now = 100, new_id = 50, save1_up = True, save2_up = True, ledger_up = True\<rparr>"


definition env_save2_down :: env where
  "env_save2_down = \<lparr>now = 100, new_id = 50, save1_up = True, save2_up = False, ledger_up = True\<rparr>"

text \<open>Four users without connections; carol owns post 30.\<close>

definition w0 :: world where
  "w0 = \<lparr>users = [alice, bob, carol, dave],
         posts = [\<lparr>pid = 30, post_user = 13, likes = []\<rparr>],
         notifications = [], io = io0\<rparr>"

text \<open>alice and bob are connected: both entries are accepted.\<close>

definition w_connected :: world where
  "w_connected =
     w0\<lparr>users := [alice\<lparr>connections := [\<lparr>conn_user = 12, conn_status = Accepted\<rparr>]\<rparr>,
                   bob\<lparr>connections := [\<lparr>conn_user = 11, conn_status = Accepted\<rparr>]\<rparr>, carol, dave]\<rparr>"

text \<open>alice has asked bob: both entries are pending.\<close>

definition w_pending :: world where
  "w_pending =
     w0\<lparr>users := [alice\<lparr>connections := [\<lparr>conn_user = 12, conn_status = Pending\<rparr>]\<rparr>,
                   bob\<lparr>connections := [\<lparr>conn_user = 11, conn_status = Pending\<rparr>]\<rparr>, carol, dave]\<rparr>"

text \<open>
  carol opens two tabs; each socket connects and sends \<^verbatim>\<open>authenticate\<close> with her token.
\<close>

definition io_two_tabs :: io_server where
  "io_two_tabs =
     on_authenticate 72 ''token of carol''
       (on_connection 72 (on_authenticate 71 ''token of carol'' (on_connection 71 io0)))"

definition w_two_tabs :: world where
  "w_two_tabs = w0\<lparr>io := io_two_tabs\<rparr>"

text \<open>Two notifications for alice with the same \<^verbatim>\<open>createdAt\<close>, one for bob.\<close>

definition n1 :: notification where
  "n1 = \<lparr>nid = 21, recipient = 11, sender = 12, ntype = ''post-like'', content = ''Bob liked your post'',
         referenceId = Some 30, onModel = Some ''Post'', isRead = False, readAt = None, createdAt = 7\<rparr>"

definition n2 :: notification where
  "n2 = \<lparr>nid = 22, recipient = 11, sender = 13, ntype = ''post-like'', content = ''Carol liked your post'',
         referenceId = Some 30, onModel = Some ''Post'', isRead = False, readAt = None, createdAt = 7\<rparr>"

definition n3 :: notification where
  "n3 = \<lparr>nid = 23, recipient = 12, sender = 11, ntype = ''post-like'', content = ''Alice liked your post'',
         referenceId = Some 31, onModel = Some ''Post'', isRead = False, readAt = None, createdAt = 9\<rparr>"

definition w_ledger :: world where
  "w_ledger = w0\<lparr>notifications := [n1, n2, n3]\<rparr>"

text \<open>
  A later notification for alice, and a ledger that holds an older and a newer one of
  hers, the older first.
\<close>

definition n4 :: notification where
  "n4 = \<lparr>nid = 24, recipient = 11, sender = 14, ntype = ''post-like'', content = ''Dave liked your post'',
         referenceId = Some 30, onModel = Some ''Post'', isRead = False, readAt = None, createdAt = 9\<rparr>"

definition w_feed :: world where
  "w_feed = w0\<lparr>notifications := [n1, n3, n4]\<rparr>"

section \<open>Ids and saves\<close>

lemma toString_eq [simp]: "toString a = toString b \<longleftrightarrow> a = b"
  by (simp add: toString_def)

lemma cast_toString [simp]: "castObjectId (toString i) = Some i"
  by (simp add: toString_def)


lemma findById_Some: "findById us i = Some u \<Longrightarrow> u \<in> set us \<and> uid u = i"
  unfolding findById_def by (induction us) (auto split: if_splits)

lemma findById_map:
  assumes "\<And>x. uid (g x) = uid x"
  shows "findById (map (\<lambda>x. if uid x = i then g x else x) us) j
         = (if j = i then map_option g (findById us i) else findById us j)"
  unfolding findById_def using assms by (induction us) auto

lemma uid_written [simp]: "uid (written k cs s) = uid s"
  by (simp add: written_def)

lemma connections_written [simp]: "connections (written k cs s) = cs"
  by (simp add: written_def)

lemma name_written [simp]: "name (written k cs s) = name s"
  by (simp add: written_def)

lemma map_uid_written: "map uid (map (\<lambda>x. if uid x = i then written k cs x else x) us) = map uid us"
  by (induction us) auto

lemma save_noop: "cs = connections u \<Longrightarrow> save up k u cs us = Inr us"
  by (simp add: save_def)

text \<open>What a save that returns has done, given the stored document.\<close>

lemma save_Inr:
  assumes "save up k u cs us = Inr us'" and "findById us (uid u) = Some s"
  shows "(cs = connections u \<and> us' = us)
       \<or> (cs \<noteq> connections u \<and> up \<and> version s = version u
            \<and> findById us' = (findById us)(uid u \<mapsto> written k cs s)
            \<and> map uid us' = map uid us)"
proof (cases "cs = connections u")
  case True
  with assms show ?thesis by (simp add: save_def)
next
  case False
  with assms have up: up and v: "version s = version u"
    and us': "us' = map (\<lambda>x. if uid x = uid u then written k cs x else x) us"
    by (auto simp: save_def split: if_splits)
  have "findById us' = (findById us)(uid u \<mapsto> written k cs s)"
    unfolding us' using assms(2) by (auto simp: findById_map fun_eq_iff)
  with False up v us' show ?thesis by (simp add: map_uid_written)
qed

lemma save_Inl:
  assumes "save up k u cs us = Inl x" and "findById us (uid u) = Some s"
  shows "cs \<noteq> connections u \<and> (\<not> up \<or> version s \<noteq> version u)"
  using assms by (auto simp: save_def split: if_splits)



text \<open>After a save that returns, the stored document carries the array.\<close>

lemma save_Inr_stored:
  assumes "save up k u cs us = Inr us'" and "findById us (uid u) = Some u"
  shows "\<exists>u'. findById us' = (findById us)(uid u \<mapsto> u') \<and> connections u' = cs \<and> uid u' = uid u
            \<and> name u' = name u \<and> (cs = connections u \<longrightarrow> us' = us \<and> u' = u)
            \<and> (cs \<noteq> connections u \<longrightarrow> up \<and> u' = written k cs u)"
    and "map uid us' = map uid us"
proof -
  from save_Inr[OF assms] show "map uid us' = map uid us" by auto
  from save_Inr[OF assms] show "\<exists>u'. findById us' = (findById us)(uid u \<mapsto> u') \<and> connections u' = cs
       \<and> uid u' = uid u \<and> name u' = name u \<and> (cs = connections u \<longrightarrow> us' = us \<and> u' = u)
       \<and> (cs \<noteq> connections u \<longrightarrow> up \<and> u' = written k cs u)"
  proof
    assume a: "cs = connections u \<and> us' = us"
    have "findById us = (findById us)(uid u \<mapsto> u)"
      using assms(2) by (auto simp: fun_eq_iff)
    with a show ?thesis by auto
  next
    assume "cs \<noteq> connections u \<and> up \<and> version u = version u
            \<and> findById us' = (findById us)(uid u \<mapsto> written k cs u)
            \<and> map uid us' = map uid us"
    then show ?thesis by auto
  qed
qed

section \<open>Removing a connection\<close>



lemma removeConnection_unfold:
  assumes u: "findById (users w) a = Some u" and t: "findById (users w) b = Some t"
  shows "removeConnection e w a (toString b) =
    (case save (save1_up e) VERSION_ALL u (filter (\<lambda>c. conn_user c \<noteq> b) (connections u)) (users w) of
       Inl x \<Rightarrow> (Inl server_error, w)
     | Inr us1 \<Rightarrow>
        (case save (save2_up e) VERSION_ALL t (filter (\<lambda>c. conn_user c \<noteq> a) (connections t)) us1 of
           Inl x \<Rightarrow> (Inl server_error, w\<lparr>users := us1\<rparr>)
         | Inr us2 \<Rightarrow> (Inr (), w\<lparr>users := us2\<rparr>)))"
  using u t by (simp add: removeConnection_def findById_param_def cong: sum.case_cong)



lemma removeConnection_nothing_to_remove:
  assumes u: "findById (users w) a = Some u" and t: "findById (users w) b = Some t"
    and nu: "b \<notin> conn_user ` set (connections u)" and nt: "a \<notin> conn_user ` set (connections t)"
  shows "removeConnection e w a (toString b) = (Inr (), w)"
proof -
  have fa: "filter (\<lambda>c. conn_user c \<noteq> b) (connections u) = connections u"
    using nu by (auto intro: filter_True)
  have fb: "filter (\<lambda>c. conn_user c \<noteq> a) (connections t) = connections t"
    using nt by (auto intro: filter_True)
  show ?thesis
    unfolding removeConnection_unfold[OF u t] by (simp add: fa fb save_noop)
qed




lemma remove_alice_bob:
  "removeConnection env0 w_connected 11 (toString 12) =
     (Inr (), w_connected\<lparr>users := [alice\<lparr>version := 1\<rparr>, bob\<lparr>version := 1\<rparr>, carol, dave]\<rparr>)"
  by (simp add: removeConnection_def findById_param_def findById_def save_def written_def
      w_connected_def w0_def env0_def alice_def bob_def carol_def dave_def toString_def)



text \<open>
  When the user's own id is among their entries, removing it is answered 500: the
  first save raises the document's version, and the second save, of the other copy of
  the same document, carries the version that was loaded.
\<close>

lemma removeConnection_self_entry:
  assumes u: "findById (users w) a = Some u" and s: "a \<in> conn_user ` set (connections u)"
  shows "fst (removeConnection e w a (toString a)) = Inl (Error 500 ''Server error'')"
proof -
  let ?cs = "filter (\<lambda>c. conn_user c \<noteq> a) (connections u)"
  have ida: "uid u = a" using findById_Some[OF u] by simp
  have ne: "?cs \<noteq> connections u" using s by (auto simp: filter_id_conv)
  note unf = removeConnection_unfold[OF u u, of e]
  show ?thesis
  proof (cases "save (save1_up e) VERSION_ALL u ?cs (users w)")
    case (Inl x)
    then show ?thesis unfolding unf by (simp add: server_error_def)
  next
    case (Inr us1)
    from save_Inr_stored(1)[OF Inr] u ida ne obtain u1 where
      l: "findById us1 = (findById (users w))(a \<mapsto> u1)" and w: "u1 = written VERSION_ALL ?cs u"
      by auto
    have "findById us1 (uid u) = Some u1" using l ida by simp
    moreover have "version u1 \<noteq> version u" using w by (simp add: written_def)
    ultimately have "\<exists>x. save (save2_up e) VERSION_ALL u ?cs us1 = Inl x"
      using ne by (simp add: save_def)
    then show ?thesis unfolding unf using Inr by (auto simp: server_error_def)
  qed
qed

section \<open>Pending requests after a request\<close>

lemma create_valid:
  "t \<in> set type_enum \<Longrightarrow> m \<in> set onModel_enum \<Longrightarrow> t \<noteq> [] \<Longrightarrow>
   Notification_create e (notify_data r s t (nm @ x # xs) ref m) ns
   = (if ledger_up e
      then Inr (ns @ [\<lparr>nid = new_id e, recipient = r, sender = s, ntype = t, content = nm @ x # xs,
                       referenceId = Some ref, onModel = Some m, isRead = False, readAt = None,
                       createdAt = now e\<rparr>])
      else Inl MongoError)"
  by (simp add: Notification_create_def validate_def notify_data_def new_doc_def pre_save_def)

lemma sendConnectionRequest_unfold:
  assumes u: "findById (users w) a = Some u" and t: "findById (users w) b = Some t"
    and p: "castObjectId p = Some b" and ns: "toString a \<noteq> p"
    and n: "find (\<lambda>c. toString (conn_user c) = p) (connections u) = None"
  shows "sendConnectionRequest e w a p =
    (case save (save1_up e) VERSION_ALL u (\<lparr>conn_user = b, conn_status = Pending\<rparr> # connections u) (users w) of
       Inl x \<Rightarrow> (Inl server_error, w)
     | Inr us1 \<Rightarrow>
        (case save (save2_up e) VERSION_ALL t (\<lparr>conn_user = a, conn_status = Pending\<rparr> # connections t) us1 of
           Inl x \<Rightarrow> (Inl server_error, w\<lparr>users := us1\<rparr>)
         | Inr us2 \<Rightarrow>
            if ledger_up e
            then (Inr (),
                  w\<lparr>users := us2,
                    notifications := notifications w @
                      [\<lparr>nid = new_id e, recipient = b, sender = a, ntype = ''connection-request'',
                        content = name u @ '' sent you a connection request'', referenceId = Some a,
                        onModel = Some ''User'', isRead = False, readAt = None, createdAt = now e\<rparr>],
                    io := emit_to (Named b) ''receiveNotification''
                            (NotificationPayload ''connection-request''
                               (name u @ '' sent you a connection request'') a) (io w)\<rparr>)
            else (Inl server_error, w\<lparr>users := us2\<rparr>)))"
proof -
  have ids: "uid u = a" "uid t = b"
    using findById_Some[OF u] findById_Some[OF t] by simp_all
  have c: "Notification_create e
             (notify_data b a ''connection-request'' (name u @ '' sent you a connection request'') a ''User'') ns
           = (if ledger_up e
              then Inr (ns @ [\<lparr>nid = new_id e, recipient = b, sender = a, ntype = ''connection-request'',
                        content = name u @ '' sent you a connection request'', referenceId = Some a,
                        onModel = Some ''User'', isRead = False, readAt = None, createdAt = now e\<rparr>])
              else Inl MongoError)" for ns
    by (simp add: Notification_create_def validate_def notify_data_def new_doc_def pre_save_def
        type_enum_def onModel_enum_def)
  show ?thesis
    using u t p ns n ids
    by (simp add: sendConnectionRequest_def findById_param_def Let_def c
        split: sum.splits cong: sum.case_cong)
qed

lemma sendConnectionRequest_successE:
  assumes "fst (sendConnectionRequest e w a p) = Inr ()"
  obtains b u t us1 us2 where "castObjectId p = Some b" "toString a \<noteq> p"
    "findById (users w) a = Some u" "findById (users w) b = Some t"
    "find (\<lambda>c. toString (conn_user c) = p) (connections u) = None"
    "save (save1_up e) VERSION_ALL u (\<lparr>conn_user = b, conn_status = Pending\<rparr> # connections u) (users w) = Inr us1"
    "save (save2_up e) VERSION_ALL t (\<lparr>conn_user = a, conn_status = Pending\<rparr> # connections t) us1 = Inr us2"
    "users (snd (sendConnectionRequest e w a p)) = us2" "ledger_up e"
proof -
  from assms have ns: "toString a \<noteq> p"
    by (auto simp: sendConnectionRequest_def)
  from assms ns obtain b where p: "castObjectId p = Some b"
    by (cases "castObjectId p") (auto simp: sendConnectionRequest_def findById_param_def)
  from assms ns p obtain t where t: "findById (users w) b = Some t"
    by (cases "findById (users w) b") (auto simp: sendConnectionRequest_def findById_param_def)
  from assms ns p t obtain u where u: "findById (users w) a = Some u"
    by (cases "findById (users w) a") (auto simp: sendConnectionRequest_def findById_param_def)
  from assms ns p t u have n: "find (\<lambda>c. toString (conn_user c) = p) (connections u) = None"
    by (auto simp: sendConnectionRequest_def findById_param_def split: if_splits)
  note unf = sendConnectionRequest_unfold[OF u t p ns n, of e]
  from assms obtain us1 where s1:
    "save (save1_up e) VERSION_ALL u (\<lparr>conn_user = b, conn_status = Pending\<rparr> # connections u) (users w) = Inr us1"
    unfolding unf by (auto split: sum.splits)
  from assms s1 obtain us2 where s2:
    "save (save2_up e) VERSION_ALL t (\<lparr>conn_user = a, conn_status = Pending\<rparr> # connections t) us1 = Inr us2"
    unfolding unf by (auto split: sum.splits)
  from assms have l: "ledger_up e"
    unfolding unf by (auto simp: s1 s2 split: if_splits)
  have "users (snd (sendConnectionRequest e w a p)) = us2"
    unfolding unf by (simp add: s1 s2 l)
  with p ns u t n s1 s2 show ?thesis using l by (rule that)
qed

text \<open>A request that succeeded was to another user, and both documents carry the new entry.\<close>

lemma sendConnectionRequest_written:
  assumes ok: "fst (sendConnectionRequest e w a p) = Inr ()"
    and w': "w' = snd (sendConnectionRequest e w a p)" and p: "castObjectId p = Some b"
  shows "\<exists>u t u' t'. a \<noteq> b \<and> findById (users w) a = Some u \<and> findById (users w) b = Some t
     \<and> findById (users w') = (findById (users w))(a \<mapsto> u', b \<mapsto> t')
     \<and> connections u' = \<lparr>conn_user = b, conn_status = Pending\<rparr> # connections u
     \<and> connections t' = \<lparr>conn_user = a, conn_status = Pending\<rparr> # connections t
     \<and> uid u' = a \<and> uid t' = b \<and> map uid (users w') = map uid (users w)"
proof -
  from ok obtain b' u t us1 us2 where p': "castObjectId p = Some b'"
    and u: "findById (users w) a = Some u" and t: "findById (users w) b' = Some t"
    and s1: "save (save1_up e) VERSION_ALL u (\<lparr>conn_user = b', conn_status = Pending\<rparr> # connections u) (users w) = Inr us1"
    and s2: "save (save2_up e) VERSION_ALL t (\<lparr>conn_user = a, conn_status = Pending\<rparr> # connections t) us1 = Inr us2"
    and us: "users (snd (sendConnectionRequest e w a p)) = us2"
    by (rule sendConnectionRequest_successE)
  have bb: "b' = b" using p p' by simp
  have ida: "uid u = a" and idb: "uid t = b"
    using findById_Some[OF u] findById_Some[OF t] bb by simp_all
  let ?cs1 = "\<lparr>conn_user = b, conn_status = Pending\<rparr> # connections u"
  let ?cs2 = "\<lparr>conn_user = a, conn_status = Pending\<rparr> # connections t"
  from save_Inr_stored[OF s1[unfolded bb]] u ida
  have l1: "findById us1 = (findById (users w))(a \<mapsto> written VERSION_ALL ?cs1 u)"
    and m1: "map uid us1 = map uid (users w)"
    by auto
  have ab: "a \<noteq> b"
  proof
    assume eq: "a = b"
    then have ut: "t = u" using u t bb by simp
    have "findById us1 (uid t) = Some (written VERSION_ALL ?cs1 u)"
      using l1 eq idb by simp
    moreover have "version (written VERSION_ALL ?cs1 u) \<noteq> version t"
      by (simp add: written_def ut)
    ultimately have "save (save2_up e) VERSION_ALL t ?cs2 us1 \<noteq> Inr us2"
      by (auto simp: save_def)
    with s2 show False by simp
  qed
  then have "findById us1 (uid t) = Some t" using l1 t idb bb by simp
  from save_Inr_stored[OF s2 this] idb
  have l2: "findById us2 = (findById us1)(b \<mapsto> written VERSION_ALL ?cs2 t)"
    and m2: "map uid us2 = map uid us1"
    by auto
  have "findById (users w') = (findById (users w))(a \<mapsto> written VERSION_ALL ?cs1 u, b \<mapsto> written VERSION_ALL ?cs2 t)"
    by (simp add: w' us l1 l2)
  moreover have "map uid (users w') = map uid (users w)"
    by (simp add: w' us m1 m2)
  ultimately show ?thesis
    using ab u t bb ida idb by (intro exI[of _ u] exI[of _ t] exI[of _ "written VERSION_ALL ?cs1 u"]
        exI[of _ "written VERSION_ALL ?cs2 t"]) simp
qed

lemma pending_listed:
  assumes b: "findById (users w) b = Some t"
    and c: "\<lparr>conn_user = a, conn_status = Pending\<rparr> \<in> set (connections t)"
    and a: "findById (users w) a = Some u" and p: "has_pending u"
  shows "has_pending_from a (getConnectionRequests w b)"
proof -
  have "uid u = a" using findById_Some[OF a] by simp
  then have "populate (users w) has_pending \<lparr>conn_user = a, conn_status = Pending\<rparr>
      = \<lparr>p_user = Some (view u), p_status = Pending\<rparr>" (is "?e = _")
    using a p by (simp add: populate_def)
  then have "p_status ?e = Pending \<and> map_option v_id (p_user ?e) = Some a"
    using \<open>uid u = a\<close> by (simp add: view_def)
  then show ?thesis
    using b c unfolding has_pending_from_def getConnectionRequests_def
    by (auto simp: list_ex_iff intro!: bexI[where x = ?e])
qed

text \<open>
  C1, as the code has it: when \<^verbatim>\<open>sendConnectionRequest\<close> from \<open>a\<close> to \<open>b\<close> succeeds,
  the pending requests listed for \<open>b\<close> have an entry for \<open>a\<close>, and the pending
  requests listed for \<open>a\<close> have an entry for \<open>b\<close> as well: both users got a
  \<^verbatim>\<open>pending\<close> entry, no entry records who asked, and \<^verbatim>\<open>getConnectionRequests\<close>
  filters on the status alone.  \<open>p\<close> is the id of \<open>b\<close> as the request spelled it.
\<close>

theorem pending_requests_both_sides:
  assumes "fst (sendConnectionRequest e w a p) = Inr ()"
    and "w' = snd (sendConnectionRequest e w a p)" and "castObjectId p = Some b"
  shows "has_pending_from a (getConnectionRequests w' b)
       \<and> has_pending_from b (getConnectionRequests w' a)"
proof -
  from sendConnectionRequest_written[OF assms] obtain u t :: user and u' t' where ab: "a \<noteq> b"
    and l: "findById (users w') = (findById (users w))(a \<mapsto> u', b \<mapsto> t')"
    and cu: "connections u' = \<lparr>conn_user = b, conn_status = Pending\<rparr> # connections u"
    and ct: "connections t' = \<lparr>conn_user = a, conn_status = Pending\<rparr> # connections t"
    by blast
  have la: "findById (users w') a = Some u'" and lb: "findById (users w') b = Some t'"
    using ab by (simp_all add: l)
  have pu: "has_pending u'" and pt: "has_pending t'"
    by (simp_all add: has_pending_def cu ct)
  have ca: "\<lparr>conn_user = b, conn_status = Pending\<rparr> \<in> set (connections u')"
    and cb: "\<lparr>conn_user = a, conn_status = Pending\<rparr> \<in> set (connections t')"
    by (simp_all add: cu ct)
  show ?thesis
    using pending_listed[OF lb cb la pu] pending_listed[OF la ca lb pt] by simp
qed

lemma send_alice_bob:
  "sendConnectionRequest env0 w0 11 (toString 12) =
    (Inr (),
     w0\<lparr>users := [alice\<lparr>version := 1, connections := [\<lparr>conn_user = 12, conn_status = Pending\<rparr>]\<rparr>,
                   bob\<lparr>version := 1, connections := [\<lparr>conn_user = 11, conn_status = Pending\<rparr>]\<rparr>,
                   carol, dave],
        notifications := [\<lparr>nid = 50, recipient = 12, sender = 11, ntype = ''connection-request'',
           content = ''Alice sent you a connection request'', referenceId = Some 11,
           onModel = Some ''User'', isRead = False, readAt = None, createdAt = 100\<rparr>],
        io := io0\<lparr>emitted := [(Named 12, ''receiveNotification'',
           NotificationPayload ''connection-request'' ''Alice sent you a connection request'' 11)]\<rparr>\<rparr>)"
  by (simp add: sendConnectionRequest_def findById_param_def w0_def env0_def findById_def save_def
      written_def alice_def bob_def carol_def dave_def Notification_create_def validate_def
      notify_data_def type_enum_def onModel_enum_def new_doc_def pre_save_def emit_to_def io0_def
      Let_def toString_def)

theorem pending_requests_both_sides_witness:
  "fst (sendConnectionRequest env0 w0 11 (toString 12)) = Inr ()
   \<and> castObjectId (toString 12) = Some 12
   \<and> has_pending_from 11 (getConnectionRequests (snd (sendConnectionRequest env0 w0 11 (toString 12))) 12)
   \<and> has_pending_from 12 (getConnectionRequests (snd (sendConnectionRequest env0 w0 11 (toString 12))) 11)"
proof -
  have s: "fst (sendConnectionRequest env0 w0 11 (toString 12)) = Inr ()"
    by (simp add: send_alice_bob)
  show ?thesis
    using pending_requests_both_sides[OF s refl cast_toString] s by simp
qed

text \<open>
  The second half of the spec's sentence fails: alice asks bob, and the pending requests listed for
  alice consist of the entry for bob.
\<close>

theorem own_request_listed_counterexample:
  "fst (sendConnectionRequest env0 w0 11 (toString 12)) = Inr ()
   \<and> getConnectionRequests (snd (sendConnectionRequest env0 w0 11 (toString 12))) 11
      = Inr [\<lparr>p_user = Some \<lparr>v_id = 12, v_name = ''Bob'', v_profileImage = ''default.jpg'', v_headline = []\<rparr>,
              p_status = Pending\<rparr>]"
  unfolding send_alice_bob
  by (simp add: getConnectionRequests_def findById_def populate_def has_pending_def
      view_def alice_def bob_def w0_def)

section \<open>The invariant through the lookup\<close>

lemma distinct_lookup: "distinct (map uid us) \<Longrightarrow> u \<in> set us \<Longrightarrow> findById us (uid u) = Some u"
  unfolding findById_def by (induction us) auto

lemma conn_inv_lookup:
  "conn_inv us \<longleftrightarrow> distinct (map uid us) \<and> lookup_inv (findById us)"
proof (cases "distinct (map uid us)")
  case False
  then show ?thesis by (simp add: conn_inv_def)
next
  case d: True
  have m: "mirrored us u c \<longleftrightarrow>
      (\<exists>v. findById us (conn_user c) = Some v
         \<and> (\<exists>d \<in> set (connections v). conn_user d = uid u \<and> conn_status d = conn_status c))" for u c
    unfolding mirrored_def using d distinct_lookup findById_Some by metis
  have "(\<forall>u \<in> set us. P (uid u) u) \<longleftrightarrow> (\<forall>i u. findById us i = Some u \<longrightarrow> P i u)" for P
    using d distinct_lookup findById_Some by metis
  from this[of "\<lambda>i u. distinct (map conn_user (connections u))
            \<and> (\<forall>c \<in> set (connections u). conn_user c \<noteq> i
            \<and> (\<exists>v. findById us (conn_user c) = Some v
                  \<and> (\<exists>d \<in> set (connections v). conn_user d = i \<and> conn_status d = conn_status c)))"]
  show ?thesis
    unfolding conn_inv_def lookup_inv_def entries_ok_def m using d by simp
qed

lemma lookup_invD:
  assumes "lookup_inv L" "L i = Some u"
  shows "distinct (map conn_user (connections u))"
    and "c \<in> set (connections u) \<Longrightarrow> conn_user c \<noteq> i"
    and "c \<in> set (connections u) \<Longrightarrow>
          \<exists>v. L (conn_user c) = Some v
             \<and> (\<exists>d \<in> set (connections v). conn_user d = i \<and> conn_status d = conn_status c)"
  using assms unfolding lookup_inv_def entries_ok_def by blast+

text \<open>
  Two documents are replaced.  The entries each holds for third users are kept, nothing
  but entries for the other one is new, and what they hold for each other is mirrored.
\<close>

lemma lookup_inv_update2:
  fixes u t u' t' :: user
  assumes inv: "lookup_inv L" and ab: "a \<noteq> b" and u: "L a = Some u" and t: "L b = Some t"
    and du: "distinct (map conn_user (connections u'))"
    and dt: "distinct (map conn_user (connections t'))"
    and nu: "\<And>c. c \<in> set (connections u') \<Longrightarrow> conn_user c = b \<or> c \<in> set (connections u)"
    and nt: "\<And>c. c \<in> set (connections t') \<Longrightarrow> conn_user c = a \<or> c \<in> set (connections t)"
    and ku: "\<And>c. c \<in> set (connections u) \<Longrightarrow> conn_user c \<noteq> b \<Longrightarrow> c \<in> set (connections u')"
    and kt: "\<And>c. c \<in> set (connections t) \<Longrightarrow> conn_user c \<noteq> a \<Longrightarrow> c \<in> set (connections t')"
    and mu: "\<And>c. c \<in> set (connections u') \<Longrightarrow> conn_user c = b \<Longrightarrow>
               \<exists>d \<in> set (connections t'). conn_user d = a \<and> conn_status d = conn_status c"
    and mt: "\<And>c. c \<in> set (connections t') \<Longrightarrow> conn_user c = a \<Longrightarrow>
               \<exists>d \<in> set (connections u'). conn_user d = b \<and> conn_status d = conn_status c"
  shows "lookup_inv (L(a \<mapsto> u', b \<mapsto> t'))" (is "lookup_inv ?L'")
  unfolding lookup_inv_def entries_ok_def
proof (intro allI impI conjI ballI)
  fix i w assume w: "?L' i = Some w"
  show "distinct (map conn_user (connections w))"
  proof (cases "i = a \<or> i = b")
    case True
    with w ab du dt show ?thesis by (auto split: if_splits)
  next
    case False
    with w have "L i = Some w" by simp
    from lookup_invD(1)[OF inv this] show ?thesis .
  qed
next
  fix i w c assume w: "?L' i = Some w" and c: "c \<in> set (connections w)"
  consider (a) "i = a" "w = u'" | (b) "i = b" "w = t'" | (o) "i \<noteq> a" "i \<noteq> b" "L i = Some w"
    using w ab by (auto split: if_splits)
  then show "conn_user c \<noteq> i"
  proof cases
    case a
    with c nu[of c] lookup_invD(2)[OF inv u, of c] ab show ?thesis by auto
  next
    case b
    with c nt[of c] lookup_invD(2)[OF inv t, of c] ab show ?thesis by auto
  next
    case o
    from lookup_invD(2)[OF inv o(3) c] show ?thesis .
  qed
next
  fix i w c assume w: "?L' i = Some w" and c: "c \<in> set (connections w)"
  consider (a) "i = a" "w = u'" | (b) "i = b" "w = t'" | (o) "i \<noteq> a" "i \<noteq> b" "L i = Some w"
    using w ab by (auto split: if_splits)
  then show "\<exists>v. ?L' (conn_user c) = Some v
      \<and> (\<exists>d \<in> set (connections v). conn_user d = i \<and> conn_status d = conn_status c)"
  proof cases
    case a
    show ?thesis
    proof (cases "conn_user c = b")
      case True
      from mu[OF c[unfolded a(2)] True] obtain d where
        "d \<in> set (connections t')" "conn_user d = a" "conn_status d = conn_status c" by blast
      moreover have "?L' (conn_user c) = Some t'" using True by simp
      ultimately show ?thesis using a(1) by blast
    next
      case False
      with nu[of c] c a have cu: "c \<in> set (connections u)" by auto
      have na: "conn_user c \<noteq> a" using lookup_invD(2)[OF inv u cu] .
      from lookup_invD(3)[OF inv u cu] obtain v d where
        "L (conn_user c) = Some v" "d \<in> set (connections v)" "conn_user d = a"
        "conn_status d = conn_status c" by blast
      moreover have "?L' (conn_user c) = L (conn_user c)" using False na by simp
      ultimately show ?thesis using a(1) by auto
    qed
  next
    case b
    show ?thesis
    proof (cases "conn_user c = a")
      case True
      from mt[OF c[unfolded b(2)] True] obtain d where
        "d \<in> set (connections u')" "conn_user d = b" "conn_status d = conn_status c" by blast
      moreover have "?L' (conn_user c) = Some u'" using True ab by simp
      ultimately show ?thesis using b(1) by blast
    next
      case False
      with nt[of c] c b have ct: "c \<in> set (connections t)" by auto
      have nb: "conn_user c \<noteq> b" using lookup_invD(2)[OF inv t ct] .
      from lookup_invD(3)[OF inv t ct] obtain v d where
        "L (conn_user c) = Some v" "d \<in> set (connections v)" "conn_user d = b"
        "conn_status d = conn_status c" by blast
      moreover have "?L' (conn_user c) = L (conn_user c)" using False nb by simp
      ultimately show ?thesis using b(1) by auto
    qed
  next
    case o
    from lookup_invD(3)[OF inv o(3) c] obtain v d where
      v: "L (conn_user c) = Some v" and d: "d \<in> set (connections v)" "conn_user d = i"
        "conn_status d = conn_status c" by blast
    show ?thesis
    proof (cases "conn_user c = a")
      case True
      then have "v = u" using v u by simp
      with d o have "d \<in> set (connections u')" using ku[of d] by auto
      moreover have "?L' (conn_user c) = Some u'" using True ab by simp
      ultimately show ?thesis using d by blast
    next
      case na: False
      show ?thesis
      proof (cases "conn_user c = b")
        case True
        then have "v = t" using v t by simp
        with d o have "d \<in> set (connections t')" using kt[of d] by auto
        moreover have "?L' (conn_user c) = Some t'" using True by simp
        ultimately show ?thesis using d by blast
      next
        case False
        then have "?L' (conn_user c) = L (conn_user c)" using na by simp
        with v d show ?thesis by auto
      qed
    qed
  qed
qed


text \<open>
  Two saves in turn, of the documents of two different users, where the store does not
  reject the second save once it took the first: either nothing was written, or both
  arrays are as the controller left them.
\<close>

lemma two_saves_result:
  assumes ab: "a \<noteq> b" and u: "findById us a = Some u" and t: "findById us b = Some t"
    and hyp: "s1 \<longrightarrow> s2"
    and r: "r = (case save s1 k u cs1 us of Inl x \<Rightarrow> us
                 | Inr us1 \<Rightarrow> (case save s2 k' t cs2 us1 of Inl x \<Rightarrow> us1 | Inr us2 \<Rightarrow> us2))"
  shows "r = us \<or> (\<exists>u' t'. findById r = (findById us)(a \<mapsto> u', b \<mapsto> t')
                      \<and> connections u' = cs1 \<and> connections t' = cs2 \<and> map uid r = map uid us)"
proof (cases "save s1 k u cs1 us")
  case (Inl x)
  then show ?thesis using r by simp
next
  case s1: (Inr us1)
  have ida: "uid u = a" and idb: "uid t = b"
    using findById_Some[OF u] findById_Some[OF t] by simp_all
  from save_Inr_stored[OF s1] u ida obtain u' where
    l1: "findById us1 = (findById us)(a \<mapsto> u')" and c1: "connections u' = cs1"
    and n1: "cs1 = connections u \<longrightarrow> us1 = us" and m1: "cs1 \<noteq> connections u \<longrightarrow> s1"
    and mu: "map uid us1 = map uid us"
    by auto
  have st: "findById us1 (uid t) = Some t" using l1 t idb ab by simp
  show ?thesis
  proof (cases "save s2 k' t cs2 us1")
    case (Inl x)
    from save_Inl[OF Inl st] have "\<not> s2" by simp
    with hyp m1 n1 have "us1 = us" by auto
    with Inl s1 r show ?thesis by simp
  next
    case s2: (Inr us2)
    from save_Inr_stored[OF s2 st] idb obtain t' where
      l2: "findById us2 = (findById us1)(b \<mapsto> t')" and c2: "connections t' = cs2"
      and mt: "map uid us2 = map uid us1"
      by auto
    have "r = us2" using r s1 s2 by simp
    then show ?thesis using l1 l2 c1 c2 mu mt by auto
  qed
qed

lemma conn_inv_two_saves:
  fixes u t :: user
  assumes inv: "conn_inv us" and ab: "a \<noteq> b"
    and u: "findById us a = Some u" and t: "findById us b = Some t"
    and r: "r = us \<or> (\<exists>u' t'. findById r = (findById us)(a \<mapsto> u', b \<mapsto> t')
                      \<and> connections u' = cs1 \<and> connections t' = cs2 \<and> map uid r = map uid us)"
    and d1: "distinct (map conn_user cs1)" and d2: "distinct (map conn_user cs2)"
    and nu: "\<And>c. c \<in> set cs1 \<Longrightarrow> conn_user c = b \<or> c \<in> set (connections u)"
    and nt: "\<And>c. c \<in> set cs2 \<Longrightarrow> conn_user c = a \<or> c \<in> set (connections t)"
    and ku: "\<And>c. c \<in> set (connections u) \<Longrightarrow> conn_user c \<noteq> b \<Longrightarrow> c \<in> set cs1"
    and kt: "\<And>c. c \<in> set (connections t) \<Longrightarrow> conn_user c \<noteq> a \<Longrightarrow> c \<in> set cs2"
    and mu: "\<And>c. c \<in> set cs1 \<Longrightarrow> conn_user c = b \<Longrightarrow>
               \<exists>d \<in> set cs2. conn_user d = a \<and> conn_status d = conn_status c"
    and mt: "\<And>c. c \<in> set cs2 \<Longrightarrow> conn_user c = a \<Longrightarrow>
               \<exists>d \<in> set cs1. conn_user d = b \<and> conn_status d = conn_status c"
  shows "conn_inv r"
  using r
proof
  assume "r = us" with inv show ?thesis by simp
next
  assume "\<exists>u' t'. findById r = (findById us)(a \<mapsto> u', b \<mapsto> t')
            \<and> connections u' = cs1 \<and> connections t' = cs2 \<and> map uid r = map uid us"
  then obtain u' t' :: user where l: "findById r = (findById us)(a \<mapsto> u', b \<mapsto> t')"
    and c: "connections u' = cs1" "connections t' = cs2" and m: "map uid r = map uid us"
    by blast
  have L: "lookup_inv (findById us)" and d: "distinct (map uid us)"
    using inv by (simp_all add: conn_inv_lookup)
  have "lookup_inv ((findById us)(a \<mapsto> u', b \<mapsto> t'))"
    using L ab u t
  proof (rule lookup_inv_update2)
    show "distinct (map conn_user (connections u'))" "distinct (map conn_user (connections t'))"
      using d1 d2 c by simp_all
  qed (use c nu nt ku kt mu mt in auto)
  then show ?thesis
    unfolding conn_inv_lookup l[symmetric] m using d by simp
qed

section \<open>The connection invariant is preserved\<close>

lemma find_conn_None: "find (\<lambda>c. conn_user c = q) cs = None \<longleftrightarrow> q \<notin> conn_user ` set cs"
  by (auto simp: find_None_iff)

lemma no_entry_mirror:
  assumes inv: "lookup_inv L" and u: "L a = Some u" and t: "L b = Some t"
    and n: "b \<notin> conn_user ` set (connections u)"
  shows "a \<notin> conn_user ` set (connections t)"
proof
  assume "a \<in> conn_user ` set (connections t)"
  then obtain c where c: "c \<in> set (connections t)" "conn_user c = a" by auto
  from lookup_invD(3)[OF inv t c(1)] u c(2) n show False by auto
qed

lemma accept_first_map:
  "distinct (map conn_user cs) \<Longrightarrow>
   accept_first (\<lambda>c. conn_user c = q) cs
     = map (\<lambda>c. if conn_user c = q then c\<lparr>conn_status := Accepted\<rparr> else c) cs"
proof (induction cs)
  case Nil
  then show ?case by simp
next
  case (Cons c cs)
  show ?case
  proof (cases "conn_user c = q")
    case True
    with Cons.prems have "q \<notin> conn_user ` set cs" by simp
    then have "\<forall>x \<in> set cs. conn_user x \<noteq> q" by blast
    then have "map (\<lambda>c. if conn_user c = q then c\<lparr>conn_status := Accepted\<rparr> else c) cs = cs"
      by (intro map_idI) simp
    with True show ?thesis by simp
  next
    case False
    with Cons show ?thesis by simp
  qed
qed

lemma map_conn_user_accept:
  "map (conn_user \<circ> (\<lambda>c. if conn_user c = q then c\<lparr>conn_status := Accepted\<rparr> else c)) cs
      = map conn_user cs"
  by (induction cs) auto

lemma send_users:
  assumes u: "findById (users w) a = Some u" and t: "findById (users w) b = Some t"
    and ab: "a \<noteq> b" and n: "find (\<lambda>c. conn_user c = b) (connections u) = None"
  shows "users (snd (sendConnectionRequest e w a (toString b))) =
    (case save (save1_up e) VERSION_ALL u (\<lparr>conn_user = b, conn_status = Pending\<rparr> # connections u) (users w) of
       Inl x \<Rightarrow> users w
     | Inr us1 \<Rightarrow>
        (case save (save2_up e) VERSION_ALL t (\<lparr>conn_user = a, conn_status = Pending\<rparr> # connections t) us1 of
           Inl x \<Rightarrow> us1 | Inr us2 \<Rightarrow> us2))"
proof -
  have ns: "toString a \<noteq> toString b" using ab by simp
  have n': "find (\<lambda>c. toString (conn_user c) = toString b) (connections u) = None"
    using n by simp
  show ?thesis
    unfolding sendConnectionRequest_unfold[OF u t cast_toString ns n']
    by (simp split: sum.splits)
qed

lemma acceptConnection_unfold:
  assumes u: "findById (users w) a = Some u" and t: "findById (users w) b = Some t"
    and eu: "find (\<lambda>c. conn_user c = b) (connections u) \<noteq> None"
    and et: "find (\<lambda>c. conn_user c = a) (connections t) \<noteq> None"
  shows "acceptConnection e w a (toString b) =
    (case save (save1_up e) VERSION_WHERE u (accept_first (\<lambda>c. conn_user c = b) (connections u)) (users w) of
       Inl x \<Rightarrow> (Inl server_error, w)
     | Inr us1 \<Rightarrow>
        (case save (save2_up e) VERSION_WHERE t (accept_first (\<lambda>c. conn_user c = a) (connections t)) us1 of
           Inl x \<Rightarrow> (Inl server_error, w\<lparr>users := us1\<rparr>)
         | Inr us2 \<Rightarrow>
            if ledger_up e
            then (Inr (),
                  w\<lparr>users := us2,
                    notifications := notifications w @
                      [\<lparr>nid = new_id e, recipient = b, sender = a, ntype = ''connection-accepted'',
                        content = name u @ '' accepted your connection request'', referenceId = Some a,
                        onModel = Some ''User'', isRead = False, readAt = None, createdAt = now e\<rparr>],
                    io := emit_to (Named b) ''receiveNotification''
                            (NotificationPayload ''connection-accepted''
                               (name u @ '' accepted your connection request'') a) (io w)\<rparr>)
            else (Inl server_error, w\<lparr>users := us2\<rparr>)))"
proof -
  have ids: "uid u = a" "uid t = b"
    using findById_Some[OF u] findById_Some[OF t] by simp_all
  have c: "Notification_create e
             (notify_data b a ''connection-accepted'' (name u @ '' accepted your connection request'') a ''User'') ns
           = (if ledger_up e
              then Inr (ns @ [\<lparr>nid = new_id e, recipient = b, sender = a, ntype = ''connection-accepted'',
                        content = name u @ '' accepted your connection request'', referenceId = Some a,
                        onModel = Some ''User'', isRead = False, readAt = None, createdAt = now e\<rparr>])
              else Inl MongoError)" for ns
    by (simp add: Notification_create_def validate_def notify_data_def new_doc_def pre_save_def
        type_enum_def onModel_enum_def)
  show ?thesis
    using u t eu et ids
    by (auto simp: acceptConnection_def findById_param_def Let_def c
        split: sum.splits cong: sum.case_cong)
qed

lemma accept_users:
  assumes u: "findById (users w) a = Some u" and t: "findById (users w) b = Some t"
    and eu: "find (\<lambda>c. conn_user c = b) (connections u) \<noteq> None"
    and et: "find (\<lambda>c. conn_user c = a) (connections t) \<noteq> None"
  shows "users (snd (acceptConnection e w a (toString b))) =
    (case save (save1_up e) VERSION_WHERE u (accept_first (\<lambda>c. conn_user c = b) (connections u)) (users w) of
       Inl x \<Rightarrow> users w
     | Inr us1 \<Rightarrow>
        (case save (save2_up e) VERSION_WHERE t (accept_first (\<lambda>c. conn_user c = a) (connections t)) us1 of
           Inl x \<Rightarrow> us1 | Inr us2 \<Rightarrow> us2))"
  unfolding acceptConnection_unfold[OF assms] by (simp split: sum.splits)

lemma accept_not_found:
  assumes "find (\<lambda>c. conn_user c = b) (connections u) = None
           \<or> find (\<lambda>c. conn_user c = a) (connections t) = None"
    and u: "findById (users w) a = Some u" and t: "findById (users w) b = Some t"
  shows "acceptConnection e w a (toString b) = (Inl (Error 400 ''No connection request found''), w)"
  using assms by (auto simp: acceptConnection_def findById_param_def)

lemma remove_users:
  assumes u: "findById (users w) a = Some u" and t: "findById (users w) b = Some t"
  shows "users (snd (removeConnection e w a (toString b))) =
    (case save (save1_up e) VERSION_ALL u (filter (\<lambda>c. conn_user c \<noteq> b) (connections u)) (users w) of
       Inl x \<Rightarrow> users w
     | Inr us1 \<Rightarrow>
        (case save (save2_up e) VERSION_ALL t (filter (\<lambda>c. conn_user c \<noteq> a) (connections t)) us1 of
           Inl x \<Rightarrow> us1 | Inr us2 \<Rightarrow> us2))"
  unfolding removeConnection_unfold[OF assms] by (simp split: sum.splits)

lemma conn_inv_send:
  assumes inv: "conn_inv (users w)" and hyp: "save1_up e \<longrightarrow> save2_up e"
  shows "conn_inv (users (snd (sendConnectionRequest e w a (toString b))))"
proof (cases "a \<noteq> b \<and> (\<exists>u t. findById (users w) a = Some u \<and> findById (users w) b = Some t
                \<and> find (\<lambda>c. conn_user c = b) (connections u) = None)")
  case False
  then have "snd (sendConnectionRequest e w a (toString b)) = w"
    by (auto simp: sendConnectionRequest_def findById_param_def split: option.splits)
  with inv show ?thesis by simp
next
  case True
  then obtain u t where ab: "a \<noteq> b" and u: "findById (users w) a = Some u"
    and t: "findById (users w) b = Some t"
    and n: "find (\<lambda>c. conn_user c = b) (connections u) = None" by blast
  have L: "lookup_inv (findById (users w))" using inv by (simp add: conn_inv_lookup)
  have nb: "b \<notin> conn_user ` set (connections u)" using n by (simp add: find_conn_None)
  have na: "a \<notin> conn_user ` set (connections t)" using no_entry_mirror[OF L u t nb] .
  let ?cs1 = "\<lparr>conn_user = b, conn_status = Pending\<rparr> # connections u"
  let ?cs2 = "\<lparr>conn_user = a, conn_status = Pending\<rparr> # connections t"
  show ?thesis
  proof (rule conn_inv_two_saves[OF inv ab u t
        two_saves_result[OF ab u t hyp send_users[OF u t ab n]]])
    show "distinct (map conn_user ?cs1)" "distinct (map conn_user ?cs2)"
      using nb na lookup_invD(1)[OF L u] lookup_invD(1)[OF L t] by simp_all
  next
    fix c assume "c \<in> set ?cs1" "conn_user c = b"
    then have "c = \<lparr>conn_user = b, conn_status = Pending\<rparr>" using nb by force
    then show "\<exists>d \<in> set ?cs2. conn_user d = a \<and> conn_status d = conn_status c"
      by (intro bexI[of _ "\<lparr>conn_user = a, conn_status = Pending\<rparr>"]) simp_all
  next
    fix c assume "c \<in> set ?cs2" "conn_user c = a"
    then have "c = \<lparr>conn_user = a, conn_status = Pending\<rparr>" using na by force
    then show "\<exists>d \<in> set ?cs1. conn_user d = b \<and> conn_status d = conn_status c"
      by (intro bexI[of _ "\<lparr>conn_user = b, conn_status = Pending\<rparr>"]) simp_all
  next
    fix c assume "c \<in> set ?cs1"
    then show "conn_user c = b \<or> c \<in> set (connections u)" by auto
  next
    fix c assume "c \<in> set ?cs2"
    then show "conn_user c = a \<or> c \<in> set (connections t)" by auto
  next
    fix c assume "c \<in> set (connections u)"
    then show "c \<in> set ?cs1" by simp
  next
    fix c assume "c \<in> set (connections t)"
    then show "c \<in> set ?cs2" by simp
  qed
qed

lemma accept_map_new:
  "c \<in> set (map (\<lambda>c. if conn_user c = q then c\<lparr>conn_status := Accepted\<rparr> else c) cs) \<Longrightarrow>
   conn_user c = q \<or> c \<in> set cs"
  by (induction cs) (auto split: if_splits)

lemma accept_map_kept:
  "c \<in> set cs \<Longrightarrow> conn_user c \<noteq> q \<Longrightarrow>
   c \<in> set (map (\<lambda>c. if conn_user c = q then c\<lparr>conn_status := Accepted\<rparr> else c) cs)"
  by (induction cs) (auto split: if_splits)

lemma accept_map_status:
  assumes "c \<in> set (map (\<lambda>c. if conn_user c = q then c\<lparr>conn_status := Accepted\<rparr> else c) cs)"
    and "conn_user c = q"
  shows "conn_status c = Accepted"
proof -
  from assms(1) obtain c0 where
    c: "c = (if conn_user c0 = q then c0\<lparr>conn_status := Accepted\<rparr> else c0)"
    unfolding set_map by blast
  show ?thesis
  proof (cases "conn_user c0 = q")
    case True
    with c show ?thesis by simp
  next
    case False
    with c assms(2) show ?thesis by simp
  qed
qed

lemma accept_map_entry:
  assumes "c0 \<in> set cs" and "conn_user c0 = q"
  shows "\<exists>d \<in> set (map (\<lambda>c. if conn_user c = q then c\<lparr>conn_status := Accepted\<rparr> else c) cs).
      conn_user d = q \<and> conn_status d = Accepted"
proof (intro bexI[of _ "c0\<lparr>conn_status := Accepted\<rparr>"] conjI)
  show "c0\<lparr>conn_status := Accepted\<rparr>
      \<in> set (map (\<lambda>c. if conn_user c = q then c\<lparr>conn_status := Accepted\<rparr> else c) cs)"
    unfolding set_map using assms by (intro image_eqI[of _ _ c0]) simp_all
qed (use assms in simp_all)

lemma conn_inv_accept:
  assumes inv: "conn_inv (users w)" and hyp: "save1_up e \<longrightarrow> save2_up e"
  shows "conn_inv (users (snd (acceptConnection e w a (toString b))))"
proof (cases "\<exists>u t. findById (users w) a = Some u \<and> findById (users w) b = Some t
                \<and> find (\<lambda>c. conn_user c = b) (connections u) \<noteq> None
                \<and> find (\<lambda>c. conn_user c = a) (connections t) \<noteq> None")
  case False
  then have "snd (acceptConnection e w a (toString b)) = w"
    by (auto simp: acceptConnection_def findById_param_def split: option.splits)
  with inv show ?thesis by simp
next
  case True
  then obtain u t where u: "findById (users w) a = Some u"
    and t: "findById (users w) b = Some t"
    and eu: "find (\<lambda>c. conn_user c = b) (connections u) \<noteq> None"
    and et: "find (\<lambda>c. conn_user c = a) (connections t) \<noteq> None" by blast
  have L: "lookup_inv (findById (users w))" using inv by (simp add: conn_inv_lookup)
  obtain cu where cu: "cu \<in> set (connections u)" "conn_user cu = b"
    using eu by (auto simp: find_conn_None)
  obtain ct where ct: "ct \<in> set (connections t)" "conn_user ct = a"
    using et by (auto simp: find_conn_None)
  have ab: "a \<noteq> b"
    using cu lookup_invD(2)[OF L u cu(1)] by simp
  have du: "distinct (map conn_user (connections u))" and dt: "distinct (map conn_user (connections t))"
    using lookup_invD(1)[OF L u] lookup_invD(1)[OF L t] by simp_all
  define cs1 where "cs1 = map (\<lambda>c. if conn_user c = b then c\<lparr>conn_status := Accepted\<rparr> else c) (connections u)"
  define cs2 where "cs2 = map (\<lambda>c. if conn_user c = a then c\<lparr>conn_status := Accepted\<rparr> else c) (connections t)"
  have r: "users (snd (acceptConnection e w a (toString b))) =
    (case save (save1_up e) VERSION_WHERE u cs1 (users w) of
       Inl x \<Rightarrow> users w
     | Inr us1 \<Rightarrow> (case save (save2_up e) VERSION_WHERE t cs2 us1 of Inl x \<Rightarrow> us1 | Inr us2 \<Rightarrow> us2))"
    unfolding accept_users[OF u t eu et] accept_first_map[OF du] accept_first_map[OF dt]
      cs1_def cs2_def ..
  show ?thesis
  proof (rule conn_inv_two_saves[OF inv ab u t two_saves_result[OF ab u t hyp r]])
    show "distinct (map conn_user cs1)" "distinct (map conn_user cs2)"
      using du dt by (simp_all add: cs1_def cs2_def map_conn_user_accept)
  next
    fix c assume "c \<in> set cs1" "conn_user c = b"
    then have "conn_status c = Accepted" unfolding cs1_def by (rule accept_map_status)
    with accept_map_entry[OF ct] show "\<exists>d \<in> set cs2. conn_user d = a \<and> conn_status d = conn_status c"
      unfolding cs2_def by simp
  next
    fix c assume "c \<in> set cs2" "conn_user c = a"
    then have "conn_status c = Accepted" unfolding cs2_def by (rule accept_map_status)
    with accept_map_entry[OF cu] show "\<exists>d \<in> set cs1. conn_user d = b \<and> conn_status d = conn_status c"
      unfolding cs1_def by simp
  next
    fix c assume "c \<in> set cs1"
    then show "conn_user c = b \<or> c \<in> set (connections u)"
      unfolding cs1_def by (rule accept_map_new)
  next
    fix c assume "c \<in> set cs2"
    then show "conn_user c = a \<or> c \<in> set (connections t)"
      unfolding cs2_def by (rule accept_map_new)
  next
    fix c assume "c \<in> set (connections u)" "conn_user c \<noteq> b"
    then show "c \<in> set cs1" unfolding cs1_def by (rule accept_map_kept)
  next
    fix c assume "c \<in> set (connections t)" "conn_user c \<noteq> a"
    then show "c \<in> set cs2" unfolding cs2_def by (rule accept_map_kept)
  qed
qed

lemma conn_inv_remove:
  assumes inv: "conn_inv (users w)" and hyp: "save1_up e \<longrightarrow> save2_up e"
  shows "conn_inv (users (snd (removeConnection e w a (toString b))))"
proof (cases "\<exists>u t. findById (users w) a = Some u \<and> findById (users w) b = Some t")
  case False
  then have "snd (removeConnection e w a (toString b)) = w"
    by (auto simp: removeConnection_def findById_param_def split: option.splits)
  with inv show ?thesis by simp
next
  case True
  then obtain u t where u: "findById (users w) a = Some u"
    and t: "findById (users w) b = Some t" by blast
  have L: "lookup_inv (findById (users w))" using inv by (simp add: conn_inv_lookup)
  show ?thesis
  proof (cases "a = b")
    case True
    then have "b \<notin> conn_user ` set (connections u)" "a \<notin> conn_user ` set (connections t)"
      using lookup_invD(2)[OF L u] lookup_invD(2)[OF L t] by auto
    from removeConnection_nothing_to_remove[OF u t this] inv show ?thesis by simp
  next
    case ab: False
    let ?cs1 = "filter (\<lambda>c. conn_user c \<noteq> b) (connections u)"
    let ?cs2 = "filter (\<lambda>c. conn_user c \<noteq> a) (connections t)"
    show ?thesis
    proof (rule conn_inv_two_saves[OF inv ab u t
          two_saves_result[OF ab u t hyp remove_users[OF u t]]])
      show "distinct (map conn_user ?cs1)" "distinct (map conn_user ?cs2)"
        using lookup_invD(1)[OF L u] lookup_invD(1)[OF L t] by (simp_all add: distinct_map_filter)
    qed auto
  qed
qed

text \<open>
  C2, as the code has it: from a state that satisfies the connection invariant (one
  document per user id, at most one entry per peer, no entry for oneself, every entry
  mirrored with the same status), each of \<^verbatim>\<open>sendConnectionRequest\<close>,
  \<^verbatim>\<open>acceptConnection\<close> and \<^verbatim>\<open>removeConnection\<close>, called with the id of the peer as
  \<^verbatim>\<open>toString\<close> prints it and with a store that does not reject the second save once
  it has accepted the first, leads to a state that satisfies it, whatever the request
  answers.
\<close>

theorem connection_invariant_preserved:
  assumes "conn_inv (users w)" and "save1_up e \<longrightarrow> save2_up e"
  shows "conn_inv (users (snd (sendConnectionRequest e w a (toString b))))
       \<and> conn_inv (users (snd (acceptConnection e w a (toString b))))
       \<and> conn_inv (users (snd (removeConnection e w a (toString b))))"
  using conn_inv_send[OF assms] conn_inv_accept[OF assms] conn_inv_remove[OF assms] by simp


lemma conn_inv_examples: "conn_inv (users w_connected)" "conn_inv (users w_pending)"
  by (simp_all add: conn_inv_def mirrored_def w_connected_def w_pending_def w0_def
      alice_def bob_def carol_def dave_def)

lemma send_alice_carol:
  "users (snd (sendConnectionRequest env0 w_connected 11 (toString 13))) =
     [alice\<lparr>version := 1, connections := [\<lparr>conn_user = 13, conn_status = Pending\<rparr>,
                                           \<lparr>conn_user = 12, conn_status = Accepted\<rparr>]\<rparr>,
      bob\<lparr>connections := [\<lparr>conn_user = 11, conn_status = Accepted\<rparr>]\<rparr>,
      carol\<lparr>version := 1, connections := [\<lparr>conn_user = 11, conn_status = Pending\<rparr>]\<rparr>, dave]"
  by (simp add: sendConnectionRequest_def findById_param_def w_connected_def w0_def env0_def
      findById_def save_def written_def alice_def bob_def carol_def dave_def Notification_create_def
      validate_def notify_data_def type_enum_def onModel_enum_def Let_def toString_def)

lemma accept_bob_alice:
  "users (snd (acceptConnection env0 w_pending 12 (toString 11))) =
     [alice\<lparr>connections := [\<lparr>conn_user = 12, conn_status = Accepted\<rparr>]\<rparr>,
      bob\<lparr>connections := [\<lparr>conn_user = 11, conn_status = Accepted\<rparr>]\<rparr>, carol, dave]"
  by (simp add: acceptConnection_def findById_param_def w_pending_def w0_def env0_def
      findById_def save_def written_def alice_def bob_def carol_def dave_def Notification_create_def
      validate_def notify_data_def type_enum_def onModel_enum_def Let_def toString_def)

text \<open>
  alice, connected to bob, asks carol; bob accepts the request of alice; alice removes
  bob.  Each request changes the stored users.
\<close>

theorem connection_invariant_preserved_witness:
  "conn_inv (users w_connected) \<and> conn_inv (users w_pending) \<and> save2_up env0
   \<and> conn_inv (users (snd (sendConnectionRequest env0 w_connected 11 (toString 13))))
   \<and> users (snd (sendConnectionRequest env0 w_connected 11 (toString 13))) \<noteq> users w_connected
   \<and> conn_inv (users (snd (acceptConnection env0 w_pending 12 (toString 11))))
   \<and> users (snd (acceptConnection env0 w_pending 12 (toString 11))) \<noteq> users w_pending
   \<and> conn_inv (users (snd (removeConnection env0 w_connected 11 (toString 12))))
   \<and> users (snd (removeConnection env0 w_connected 11 (toString 12))) \<noteq> users w_connected"
proof -
  have h: "save1_up env0 \<longrightarrow> save2_up env0" and h': "save2_up env0"
    by (simp_all add: env0_def)
  have 1: "users (snd (sendConnectionRequest env0 w_connected 11 (toString 13))) \<noteq> users w_connected"
    unfolding send_alice_carol by (simp add: w_connected_def w0_def alice_def)
  have 2: "users (snd (acceptConnection env0 w_pending 12 (toString 11))) \<noteq> users w_pending"
    unfolding accept_bob_alice by (simp add: w_pending_def w0_def alice_def)
  have 3: "users (snd (removeConnection env0 w_connected 11 (toString 12))) \<noteq> users w_connected"
    unfolding remove_alice_bob by (simp add: w_connected_def w0_def alice_def)
  show ?thesis
    using connection_invariant_preserved[OF conn_inv_examples(1) h, of 11 13]
      connection_invariant_preserved[OF conn_inv_examples(2) h, of 12 11]
      connection_invariant_preserved[OF conn_inv_examples(1) h, of 11 12]
      conn_inv_examples h' 1 2 3 by blast
qed

text \<open>
  For every call the sentence fails.  alice, connected to bob, sends a request with
  another spelling of bob's id: the search for an existing entry compares strings and
  finds none, the request succeeds, and both users hold two entries for each other.
  alice asks carol while the store rejects the second save: the request is answered
  500 and alice holds an entry for carol that carol does not mirror.
\<close>

theorem invariant_broken_counterexample:
  "conn_inv (users w_connected)
   \<and> fst (sendConnectionRequest env0 w_connected 11 (Spelling 12 1)) = Inr ()
   \<and> \<not> conn_inv (users (snd (sendConnectionRequest env0 w_connected 11 (Spelling 12 1))))
   \<and> fst (sendConnectionRequest env_save2_down w_connected 11 (toString 13)) = Inl (Error 500 ''Server error'')
   \<and> \<not> conn_inv (users (snd (sendConnectionRequest env_save2_down w_connected 11 (toString 13))))"
proof -
  have 1: "sendConnectionRequest env0 w_connected 11 (Spelling 12 1) =
      (Inr (),
       w_connected\<lparr>users :=
          [alice\<lparr>version := 1, connections := [\<lparr>conn_user = 12, conn_status = Pending\<rparr>,
                                                \<lparr>conn_user = 12, conn_status = Accepted\<rparr>]\<rparr>,
           bob\<lparr>version := 1, connections := [\<lparr>conn_user = 11, conn_status = Pending\<rparr>,
                                              \<lparr>conn_user = 11, conn_status = Accepted\<rparr>]\<rparr>,
           carol, dave],
          notifications := [\<lparr>nid = 50, recipient = 12, sender = 11, ntype = ''connection-request'',
             content = ''Alice sent you a connection request'', referenceId = Some 11,
             onModel = Some ''User'', isRead = False, readAt = None, createdAt = 100\<rparr>],
          io := io0\<lparr>emitted := [(Named 12, ''receiveNotification'',
             NotificationPayload ''connection-request'' ''Alice sent you a connection request'' 11)]\<rparr>\<rparr>)"
    by (simp add: sendConnectionRequest_def findById_param_def w_connected_def w0_def env0_def
      findById_def save_def written_def alice_def bob_def carol_def dave_def Notification_create_def
      validate_def notify_data_def type_enum_def onModel_enum_def new_doc_def pre_save_def
      emit_to_def io0_def Let_def toString_def)
  have 2: "sendConnectionRequest env_save2_down w_connected 11 (toString 13) =
      (Inl (Error 500 ''Server error''),
       w_connected\<lparr>users :=
          [alice\<lparr>version := 1, connections := [\<lparr>conn_user = 13, conn_status = Pending\<rparr>,
                                                \<lparr>conn_user = 12, conn_status = Accepted\<rparr>]\<rparr>,
           bob\<lparr>connections := [\<lparr>conn_user = 11, conn_status = Accepted\<rparr>]\<rparr>,
           carol, dave]\<rparr>)"
    by (simp add: sendConnectionRequest_def findById_param_def w_connected_def w0_def
      env_save2_down_def findById_def save_def written_def alice_def bob_def carol_def dave_def
      server_error_def toString_def)
  show ?thesis
    unfolding 1 2 using conn_inv_examples(1)
    by (simp add: conn_inv_def mirrored_def alice_def bob_def carol_def dave_def)
qed

section \<open>Accepting a request\<close>











section \<open>A notification that the store rejects\<close>

lemma create_down [simp]:
  "Notification_create (e\<lparr>ledger_up := False\<rparr>) d ns
     = (if validate d then Inl MongoError else Inl ValidationError)"
  by (simp add: Notification_create_def)











section \<open>What the schema rejects\<close>

text \<open>
  C6: the notification that \<^verbatim>\<open>createGroupConversation\<close> creates is rejected by the
  schema's validators, as is every notification of a \<^verbatim>\<open>group-*\<close> type and every
  notification whose \<^verbatim>\<open>onModel\<close> is \<^verbatim>\<open>Conversation\<close>: the enums of
  models/Notification.js have neither.
\<close>

theorem group_notification_rejected:
  "Notification_create e (createGroup_notification adminUser gname participantId conversationId) ns
     = Inl ValidationError
   \<and> list_all (\<lambda>t. Notification_create e (notify_data r s t c ref m) ns = Inl ValidationError)
        [''group-invite'', ''group-update'', ''group-admin'', ''group-remove'', ''group-leave'']
   \<and> Notification_create e (notify_data r s t c ref ''Conversation'') ns = Inl ValidationError"
  by (simp add: Notification_create_def createGroup_notification_def validate_def notify_data_def
      type_enum_def onModel_enum_def)


section \<open>Two sessions of one user\<close>

text \<open>
  C4: carol opens two tabs, each socket sends \<^verbatim>\<open>authenticate\<close> with her token, and
  dave likes her post.  \<^verbatim>\<open>jwt.verify\<close> throws in both handlers: no socket gets a
  \<^verbatim>\<open>userId\<close>, \<^verbatim>\<open>connectedUsers\<close> stays empty, and each socket is sent \<^verbatim>\<open>error\<close>.
  The like records exactly one notification and emits one \<^verbatim>\<open>receiveNotification\<close>
  to the room named by carol's id; each socket is in the room of its own id only, so
  the event reaches neither tab.
\<close>

theorem two_tabs_no_push:
  "map userId (sockets io_two_tabs) = [None, None]
   \<and> map rooms (sockets io_two_tabs) = [[Own 71], [Own 72]]
   \<and> connectedUsers io_two_tabs 13 = None
   \<and> delivered io_two_tabs = [(71, ''error'', ErrorMessage ''Authentication failed''),
                               (72, ''error'', ErrorMessage ''Authentication failed'')]
   \<and> fst (likePost env0 w_two_tabs 14 (toString 30)) = Inr [14]
   \<and> map ntype (notifications (snd (likePost env0 w_two_tabs 14 (toString 30)))) = [''post-like'']
   \<and> map recipient (notifications (snd (likePost env0 w_two_tabs 14 (toString 30)))) = [13]
   \<and> emitted (io (snd (likePost env0 w_two_tabs 14 (toString 30))))
        = emitted io_two_tabs
          @ [(Named 13, ''receiveNotification'', NotificationPayload ''post-like'' ''Dave liked your post'' 14)]
   \<and> delivered (io (snd (likePost env0 w_two_tabs 14 (toString 30)))) = delivered io_two_tabs
   \<and> filter (\<lambda>d. fst (snd d) = ''receiveNotification'')
        (delivered (io (snd (likePost env0 w_two_tabs 14 (toString 30))))) = []"
  by (simp add: likePost_def w_two_tabs_def io_two_tabs_def w0_def env0_def findPost_def savePost_def
      findById_def Let_def alice_def bob_def carol_def dave_def Notification_create_def validate_def
      notify_data_def type_enum_def onModel_enum_def new_doc_def pre_save_def emit_to_def io0_def
      on_connection_def on_authenticate_def jwt_verify_def toString_def)

text \<open>
  Neither handler of server.js that a client can reach before the like puts a socket
  into a room named by a user id on its own: \<^verbatim>\<open>authenticate\<close> leaves the rooms of
  every socket as they are.
\<close>

lemma authenticate_joins_no_room:
  "map rooms (sockets (on_authenticate i token s)) = map rooms (sockets s)"
  by (simp add: on_authenticate_def jwt_verify_def emit_to_def)

section \<open>Marking notifications as read\<close>


lemma find_by_id:
  "distinct (map nid ns) \<Longrightarrow> n \<in> set ns \<Longrightarrow>
   find (\<lambda>m. nid m = nid n \<and> recipient m = u) ns = (if recipient n = u then Some n else None)"
proof (induction ns)
  case Nil
  then show ?case by simp
next
  case (Cons m ns)
  show ?case
  proof (cases "m = n")
    case True
    with Cons.prems have "nid n \<notin> nid ` set ns" by simp
    then have "\<forall>x \<in> set ns. nid x \<noteq> nid n" by (metis imageI)
    then have "find (\<lambda>m. nid m = nid n \<and> recipient m = u) ns = None"
      by (auto simp: find_None_iff)
    with True show ?thesis by simp
  next
    case False
    with Cons.prems have "n \<in> set ns" "nid m \<noteq> nid n" by force+
    with Cons show ?thesis by simp
  qed
qed

lemma update_first_set:
  "find f ns = Some n \<Longrightarrow> n\<lparr>isRead := True\<rparr> \<in> set (update_first f ns)"
  by (induction ns) (auto split: if_splits)

lemma update_first_nid: "map nid (update_first f ns) = map nid ns"
  by (induction ns) auto

lemma update_first_readAt: "map readAt (update_first f ns) = map readAt ns"
  by (induction ns) auto

lemma updateMany_readAt: "map readAt (updateMany f ns) = map readAt ns"
  unfolding updateMany_def by (induction ns) auto

lemma update_first_same:
  "\<forall>n \<in> set ns. f n \<longrightarrow> isRead n \<Longrightarrow> update_first f ns = ns"
  by (induction ns) auto

lemma markAsRead_found:
  assumes "find (\<lambda>n. nid n = i \<and> recipient n = me) (notifications w) = Some n"
  shows "markAsRead w i me =
    (Inr (n\<lparr>isRead := True\<rparr>),
     w\<lparr>notifications := update_first (\<lambda>n. nid n = i \<and> recipient n = me) (notifications w),
       io := emit_to (Named me) ''notificationRead''
               (UnreadCount (countUnread (update_first (\<lambda>n. nid n = i \<and> recipient n = me) (notifications w)) me))
               (io w)\<rparr>)"
  using assms by (simp add: markAsRead_def findOneAndUpdate_def)

lemma markAsRead_missing:
  assumes "find (\<lambda>n. nid n = i \<and> recipient n = me) (notifications w) = None"
  shows "markAsRead w i me = (Inl (Error 404 ''Notification not found''), w)"
  using assms by (simp add: markAsRead_def findOneAndUpdate_def)

text \<open>
  C7, as the code has it: in a ledger with one document per \<^verbatim>\<open>_id\<close>, a user other
  than the recipient who marks a notification as read gets 404 Notification not found,
  and the state, the notification's \<^verbatim>\<open>isRead\<close> included, is unchanged.  The recipient
  succeeds, a second call succeeds as well with the same answer, and it leaves the
  ledger as the first call left it.
\<close>

theorem markAsRead_other_user_not_found:
  assumes n: "n \<in> set (notifications w)" and d: "distinct (map nid (notifications w))"
    and w1: "w1 = snd (markAsRead w (nid n) (recipient n))"
  shows "(u \<noteq> recipient n \<longrightarrow> markAsRead w (nid n) u = (Inl (Error 404 ''Notification not found''), w))
    \<and> fst (markAsRead w (nid n) (recipient n)) = Inr (n\<lparr>isRead := True\<rparr>)
    \<and> n\<lparr>isRead := True\<rparr> \<in> set (notifications w1)
    \<and> fst (markAsRead w1 (nid n) (recipient n)) = Inr (n\<lparr>isRead := True\<rparr>)
    \<and> notifications (snd (markAsRead w1 (nid n) (recipient n))) = notifications w1"
proof -
  let ?f = "\<lambda>m. nid m = nid n \<and> recipient m = recipient n"
  let ?n' = "n\<lparr>isRead := True\<rparr>"
  have other: "u \<noteq> recipient n \<longrightarrow> markAsRead w (nid n) u = (Inl (Error 404 ''Notification not found''), w)"
    using find_by_id[OF d n, of u] by (auto intro: markAsRead_missing)
  have f: "find ?f (notifications w) = Some n"
    using find_by_id[OF d n, of "recipient n"] by simp
  have ns1: "notifications w1 = update_first ?f (notifications w)"
    unfolding w1 markAsRead_found[OF f] by simp
  have in1: "?n' \<in> set (notifications w1)"
    unfolding ns1 using f by (rule update_first_set)
  have d1: "distinct (map nid (notifications w1))"
    unfolding ns1 update_first_nid using d .
  have f1: "find ?f (notifications w1) = Some ?n'"
    using find_by_id[OF d1 in1, of "recipient n"] by simp
  have same: "update_first ?f (notifications w1) = notifications w1"
  proof (rule update_first_same, intro ballI impI)
    fix m assume m: "m \<in> set (notifications w1)" "?f m"
    have "find (\<lambda>x. nid x = nid m \<and> recipient x = recipient m) (notifications w1) = Some m"
      using find_by_id[OF d1 m(1), of "recipient m"] by simp
    with f1 m(2) have "m = ?n'" by simp
    then show "isRead m" by simp
  qed
  have r2: "fst (markAsRead w1 (nid n) (recipient n)) = Inr ?n'"
    "notifications (snd (markAsRead w1 (nid n) (recipient n))) = notifications w1"
    unfolding markAsRead_found[OF f1] using same by simp_all
  have r1: "fst (markAsRead w (nid n) (recipient n)) = Inr ?n'"
    unfolding markAsRead_found[OF f] by simp
  show ?thesis using other r1 in1 r2 by simp
qed

theorem markAsRead_other_user_not_found_witness:
  "n1 \<in> set (notifications w_ledger) \<and> distinct (map nid (notifications w_ledger)) \<and> 12 \<noteq> recipient n1
   \<and> markAsRead w_ledger (nid n1) 12 = (Inl (Error 404 ''Notification not found''), w_ledger)
   \<and> fst (markAsRead w_ledger (nid n1) (recipient n1)) = Inr (n1\<lparr>isRead := True\<rparr>)
   \<and> fst (markAsRead (snd (markAsRead w_ledger (nid n1) (recipient n1))) (nid n1) (recipient n1))
        = Inr (n1\<lparr>isRead := True\<rparr>)"
proof -
  have a: "n1 \<in> set (notifications w_ledger)" by (simp add: w_ledger_def)
  have b: "distinct (map nid (notifications w_ledger))"
    by (simp add: w_ledger_def n1_def n2_def n3_def)
  have c: "12 \<noteq> recipient n1" by (simp add: n1_def)
  show ?thesis
    using markAsRead_other_user_not_found[OF a b refl, of 12] a b c by simp
qed

text \<open>
  \<^verbatim>\<open>Forbidden\<close> is not what the code answers: bob marks alice's
  notification 21 and gets 404.
\<close>

theorem markAsRead_not_forbidden_counterexample:
  "recipient n1 = 11 \<and> nid n1 = 21
   \<and> fst (markAsRead w_ledger 21 12) = Inl (Error 404 ''Notification not found'')
   \<and> http_status (Error 404 ''Notification not found'') \<noteq> 403"
  by (simp add: markAsRead_def findOneAndUpdate_def w_ledger_def n1_def n2_def n3_def)

text \<open>
  C10: \<^verbatim>\<open>markAsRead\<close> and \<^verbatim>\<open>markAllAsRead\<close> leave the \<^verbatim>\<open>readAt\<close> of every
  notification as it was, while the save hook would set it: a notification of the
  ledger is stored, after either operation by its recipient, with \<^verbatim>\<open>isRead\<close> true and
  its old \<^verbatim>\<open>readAt\<close>, which is unset for a notification that was created unread.
\<close>

theorem readAt_unset_after_mark_read:
  assumes n: "n \<in> set (notifications w)" and d: "distinct (map nid (notifications w))"
  shows "n\<lparr>isRead := True\<rparr> \<in> set (notifications (snd (markAsRead w (nid n) (recipient n))))
    \<and> n\<lparr>isRead := True\<rparr> \<in> set (notifications (snd (markAllAsRead w (recipient n))))
    \<and> readAt (n\<lparr>isRead := True\<rparr>) = readAt n
    \<and> map readAt (notifications (snd (markAsRead w i u))) = map readAt (notifications w)
    \<and> map readAt (notifications (snd (markAllAsRead w u))) = map readAt (notifications w)
    \<and> readAt (pre_save t True (n\<lparr>isRead := True\<rparr>)) = Some t"
proof -
  let ?f = "\<lambda>m. nid m = nid n \<and> recipient m = recipient n"
  have f: "find ?f (notifications w) = Some n"
    using find_by_id[OF d n, of "recipient n"] by simp
  have 1: "n\<lparr>isRead := True\<rparr> \<in> set (notifications (snd (markAsRead w (nid n) (recipient n))))"
    unfolding markAsRead_found[OF f] using update_first_set[OF f] by simp
  have "n\<lparr>isRead := True\<rparr>
      \<in> (\<lambda>m. if recipient m = recipient n \<and> \<not> isRead m then m\<lparr>isRead := True\<rparr> else m)
          ` set (notifications w)"
    using n by (intro image_eqI[where x = n]) simp_all
  then have 2: "n\<lparr>isRead := True\<rparr> \<in> set (notifications (snd (markAllAsRead w (recipient n))))"
    by (simp add: markAllAsRead_def updateMany_def)
  have 3: "map readAt (notifications (snd (markAsRead w i u))) = map readAt (notifications w)"
    by (simp add: markAsRead_def findOneAndUpdate_def update_first_readAt split: option.splits)
  have 4: "map readAt (notifications (snd (markAllAsRead w u))) = map readAt (notifications w)"
    by (simp add: markAllAsRead_def updateMany_readAt)
  show ?thesis using 1 2 3 4 by (simp add: pre_save_def)
qed

theorem readAt_unset_after_mark_read_witness:
  "n1 \<in> set (notifications w_ledger) \<and> distinct (map nid (notifications w_ledger))
   \<and> readAt n1 = None
   \<and> n1\<lparr>isRead := True\<rparr> \<in> set (notifications (snd (markAsRead w_ledger (nid n1) (recipient n1))))
   \<and> n1\<lparr>isRead := True\<rparr> \<in> set (notifications (snd (markAllAsRead w_ledger (recipient n1))))
   \<and> readAt (n1\<lparr>isRead := True\<rparr>) = None"
proof -
  have a: "n1 \<in> set (notifications w_ledger)" by (simp add: w_ledger_def)
  have b: "distinct (map nid (notifications w_ledger))"
    by (simp add: w_ledger_def n1_def n2_def n3_def)
  have c: "readAt n1 = None" by (simp add: n1_def)
  show ?thesis
    using readAt_unset_after_mark_read[OF a b] a b c by simp
qed


section \<open>The order of the notification list\<close>


lemma sort_answers_unique:
  assumes a1: "sort_answers c r1" and a2: "sort_answers c r2"
    and d: "distinct (map createdAt c)"
  shows "r1 = r2"
proof -
  have m: "mset r1 = mset c" "mset r2 = mset c"
    using a1 a2 by (simp_all add: sort_answers_def)
  then have s: "set r1 = set c" "set r2 = set c"
    by (metis mset_eq_setD)+
  have mm: "mset (map createdAt r1) = mset (map createdAt c)"
      "mset (map createdAt r2) = mset (map createdAt c)"
    using m by simp_all
  have d1: "distinct (map createdAt r1)" and d2: "distinct (map createdAt r2)"
    using mm d by (metis mset_eq_imp_distinct_iff)+
  have s1: "sorted (rev (map createdAt r1))" and s2: "sorted (rev (map createdAt r2))"
    using a1 a2 by (simp_all add: sort_answers_def sorted_wrt_rev sorted_wrt_map)
  have "set (rev (map createdAt r1)) = set (rev (map createdAt r2))"
    using s by simp
  then have "rev (map createdAt r1) = rev (map createdAt r2)"
    using s1 s2 d1 d2 by (intro sorted_distinct_set_unique) simp_all
  then have e: "map createdAt r1 = map createdAt r2" by simp
  have "inj_on createdAt (set r1 \<union> set r2)"
    using d s by (simp add: distinct_map)
  with e show ?thesis by (simp add: inj_on_map_eq_map)
qed

lemma getNotifications_InrE:
  assumes "getNotifications w me p l (Inr pg)"
  obtains res where "sort_answers (filter (\<lambda>n. recipient n = me) (notifications w)) res"
    and "0 \<le> (parse_or 1 p - 1) * parse_or 10 l"
    and "data pg = take (nat \<bar>parse_or 10 l\<bar>) (drop (nat ((parse_or 1 p - 1) * parse_or 10 l)) res)"
    and "pg = \<lparr>res_count = length (data pg), unreadCount = countUnread (notifications w) me, data = data pg\<rparr>"
  using assms by (cases rule: getNotifications.cases) auto

text \<open>
  C8, as the code has it: every page that \<^verbatim>\<open>getNotifications\<close> may answer with holds
  notifications of the user in descending \<^verbatim>\<open>createdAt\<close>; the query has no second sort
  key, and the answer is determined when the user's notifications have pairwise
  different \<^verbatim>\<open>createdAt\<close>.
\<close>

theorem getNotifications_newest_first:
  assumes "getNotifications w me p l (Inr pg)"
  shows "sorted_wrt (\<lambda>a b. createdAt b \<le> createdAt a) (data pg)
    \<and> set (data pg) \<subseteq> set (filter (\<lambda>n. recipient n = me) (notifications w))
    \<and> (distinct (map createdAt (filter (\<lambda>n. recipient n = me) (notifications w))) \<longrightarrow>
         (\<forall>pg'. getNotifications w me p l (Inr pg') \<longrightarrow> pg' = pg))"
proof -
  from assms obtain res where res: "sort_answers (filter (\<lambda>n. recipient n = me) (notifications w)) res"
    and dat: "data pg = take (nat \<bar>parse_or 10 l\<bar>) (drop (nat ((parse_or 1 p - 1) * parse_or 10 l)) res)"
    and pg: "pg = \<lparr>res_count = length (data pg), unreadCount = countUnread (notifications w) me, data = data pg\<rparr>"
    by (rule getNotifications_InrE)
  have "sorted_wrt (\<lambda>a b. createdAt b \<le> createdAt a) res"
    using res by (simp add: sort_answers_def)
  then have 1: "sorted_wrt (\<lambda>a b. createdAt b \<le> createdAt a) (data pg)"
    unfolding dat by (intro sorted_wrt_take sorted_wrt_drop)
  have "set res = set (filter (\<lambda>n. recipient n = me) (notifications w))"
    using res unfolding sort_answers_def by (metis mset_eq_setD)
  moreover have "set (data pg) \<subseteq> set res"
    unfolding dat by (meson set_take_subset set_drop_subset subset_trans)
  ultimately have 2: "set (data pg) \<subseteq> set (filter (\<lambda>n. recipient n = me) (notifications w))"
    by simp
  have 3: "pg' = pg"
    if d: "distinct (map createdAt (filter (\<lambda>n. recipient n = me) (notifications w)))"
      and g: "getNotifications w me p l (Inr pg')" for pg'
  proof -
    from g obtain res' where res': "sort_answers (filter (\<lambda>n. recipient n = me) (notifications w)) res'"
      and dat': "data pg' = take (nat \<bar>parse_or 10 l\<bar>) (drop (nat ((parse_or 1 p - 1) * parse_or 10 l)) res')"
      and pg': "pg' = \<lparr>res_count = length (data pg'), unreadCount = countUnread (notifications w) me, data = data pg'\<rparr>"
      by (rule getNotifications_InrE)
    have "res' = res" using res' res d by (rule sort_answers_unique)
    then have "data pg' = data pg" using dat dat' by simp
    then show ?thesis using pg pg' by metis
  qed
  show ?thesis using 1 2 3 by blast
qed

lemma page_alice:
  assumes "sort_answers [n1, n2] res"
  shows "getNotifications w_ledger 11 None None (Inr \<lparr>res_count = 2, unreadCount = 2, data = res\<rparr>)"
proof -
  have f: "filter (\<lambda>n. recipient n = 11) (notifications w_ledger) = [n1, n2]"
    by (simp add: w_ledger_def n1_def n2_def n3_def)
  have len: "length res = 2"
    using assms unfolding sort_answers_def by (metis length_Cons list.size(3) mset_eq_length numeral_2_eq_2)
  have "getNotifications w_ledger 11 None None
     (Inr \<lparr>res_count = length res, unreadCount = countUnread (notifications w_ledger) 11, data = res\<rparr>)"
    by (rule getNotifications.page[where res = res and skip = 0])
       (use assms len in \<open>simp_all add: f parse_or_def\<close>)
  moreover have "countUnread (notifications w_ledger) 11 = 2"
    by (simp add: countUnread_def w_ledger_def n1_def n2_def n3_def)
  ultimately show ?thesis using len by simp
qed

text \<open>
  With a tie the order is not determined: alice's two notifications have the same
  \<^verbatim>\<open>createdAt\<close>, and both orders are answers of the same query.
\<close>

theorem ties_unordered_counterexample:
  "createdAt n1 = createdAt n2 \<and> nid n1 < nid n2
   \<and> getNotifications w_ledger 11 None None (Inr \<lparr>res_count = 2, unreadCount = 2, data = [n1, n2]\<rparr>)
   \<and> getNotifications w_ledger 11 None None (Inr \<lparr>res_count = 2, unreadCount = 2, data = [n2, n1]\<rparr>)"
proof -
  have "sort_answers [n1, n2] [n1, n2]" "sort_answers [n1, n2] [n2, n1]"
    by (simp_all add: sort_answers_def n1_def n2_def)
  then show ?thesis
    using page_alice by (simp add: n1_def n2_def)
qed


lemma page_feed:
  "getNotifications w_feed 11 None None (Inr \<lparr>res_count = 2, unreadCount = 2, data = [n4, n1]\<rparr>)"
proof -
  have f: "filter (\<lambda>n. recipient n = 11) (notifications w_feed) = [n1, n4]"
    by (simp add: w_feed_def n1_def n3_def n4_def)
  have "getNotifications w_feed 11 None None
     (Inr \<lparr>res_count = length [n4, n1], unreadCount = countUnread (notifications w_feed) 11,
           data = [n4, n1]\<rparr>)"
    by (rule getNotifications.page[where res = "[n4, n1]" and skip = 0])
       (simp_all add: f parse_or_def sort_answers_def n1_def n4_def)
  moreover have "countUnread (notifications w_feed) 11 = 2"
    by (simp add: countUnread_def w_feed_def n1_def n3_def n4_def)
  ultimately show ?thesis by (simp add: numeral_2_eq_2)
qed

text \<open>
  The store holds alice's older notification before her newer one; the page has the
  newer one first, and the page in the order of the store is not an answer.
\<close>

theorem getNotifications_newest_first_witness:
  "filter (\<lambda>n. recipient n = 11) (notifications w_feed) = [n1, n4]
   \<and> createdAt n1 < createdAt n4
   \<and> getNotifications w_feed 11 None None (Inr \<lparr>res_count = 2, unreadCount = 2, data = [n4, n1]\<rparr>)
   \<and> distinct (map createdAt (filter (\<lambda>n. recipient n = 11) (notifications w_feed)))
   \<and> sorted_wrt (\<lambda>a b. createdAt b \<le> createdAt a)
        (data \<lparr>res_count = 2, unreadCount = 2, data = [n4, n1]\<rparr>)
   \<and> \<not> getNotifications w_feed 11 None None (Inr \<lparr>res_count = 2, unreadCount = 2, data = [n1, n4]\<rparr>)"
proof -
  have f: "filter (\<lambda>n. recipient n = 11) (notifications w_feed) = [n1, n4]"
    by (simp add: w_feed_def n1_def n3_def n4_def)
  have lt: "createdAt n1 < createdAt n4" by (simp add: n1_def n4_def)
  have d: "distinct (map createdAt (filter (\<lambda>n. recipient n = 11) (notifications w_feed)))"
    unfolding f by (simp add: n1_def n4_def)
  note t = getNotifications_newest_first[OF page_feed]
  have s: "sorted_wrt (\<lambda>a b. createdAt b \<le> createdAt a)
        (data \<lparr>res_count = 2, unreadCount = 2, data = [n4, n1]\<rparr>)"
    by (rule t[THEN conjunct1])
  have u: "pg' = \<lparr>res_count = 2, unreadCount = 2, data = [n4, n1]\<rparr>"
    if "getNotifications w_feed 11 None None (Inr pg')" for pg'
    using t[THEN conjunct2, THEN conjunct2, rule_format, OF d that] .
  have ne: "n1 \<noteq> n4" using lt by auto
  have n: "\<not> getNotifications w_feed 11 None None (Inr \<lparr>res_count = 2, unreadCount = 2, data = [n1, n4]\<rparr>)"
  proof
    assume "getNotifications w_feed 11 None None (Inr \<lparr>res_count = 2, unreadCount = 2, data = [n1, n4]\<rparr>)"
    from u[OF this] have "data \<lparr>res_count = 2, unreadCount = 2, data = [n1, n4]\<rparr>
        = data \<lparr>res_count = 2, unreadCount = 2, data = [n4, n1]\<rparr>"
      by (rule arg_cong)
    then have "[n1, n4] = [n4, n1]" by (simp only: notification_page.select_convs)
    then have e: "n1 = n4" by (rule list.inject[THEN iffD1, THEN conjunct1])
    show False by (rule notE[OF ne e])
  qed
  show ?thesis using f lt page_feed d s n by blast
qed

end
